theory Spec2Isabelle
  imports Main "HOL-Library.Word" "HOL-Library.Char_ord" "HOL-Library.List_Lexorder"
begin

section \<open>Common helpers: characters, decimal output\<close>

text \<open>The two-byte line terminator written by \<^verbatim>\<open>send_line\<close> and appended to stored lines.\<close>

definition CRLF :: string where
  "CRLF = [CHR 0x0D, CHR 0x0A]"

definition digit_char :: "nat \<Rightarrow> char" where
  "digit_char d = ''0123456789'' ! d"

text \<open>\<^verbatim>\<open>std::to_string\<close> on an unsigned value: its decimal digits, no sign, no padding.\<close>

fun to_string :: "nat \<Rightarrow> string" where
  "to_string n = (if n < 10 then [digit_char n] else to_string (n div 10) @ [digit_char (n mod 10)])"

declare to_string.simps [simp del]

section \<open>Stream and number helpers shared by the protocol parsers\<close>

text \<open>\<^verbatim>\<open>std::isspace\<close> in the C locale: space, HT, LF, VT, FF, CR.\<close>

definition isspace :: "char \<Rightarrow> bool" where
  "isspace c = (c \<in> set [CHR '' '', CHR 0x09, CHR 0x0A, CHR 0x0B, CHR 0x0C, CHR 0x0D])"

definition isdigit :: "char \<Rightarrow> bool" where
  "isdigit c = (c \<in> set ''0123456789'')"

text \<open>\<^verbatim>\<open>::toupper\<close> in the C locale.\<close>

definition toupper :: "char \<Rightarrow> char" where
  "toupper c = (case map_of (zip ''abcdefghijklmnopqrstuvwxyz'' ''ABCDEFGHIJKLMNOPQRSTUVWXYZ'') c of
                  Some u \<Rightarrow> u | None \<Rightarrow> c)"

text \<open>
  \<^verbatim>\<open>iss >> token\<close> on a \<^verbatim>\<open>std::istringstream\<close>: skip white space, take the
  characters up to the next white space; the pair is the token (empty when the stream is
  exhausted) and the rest of the stream.
\<close>

definition read_token :: "string \<Rightarrow> string \<times> string" where
  "read_token s = (let t = dropWhile isspace s
                   in (takeWhile (\<lambda>c. \<not> isspace c) t, dropWhile (\<lambda>c. \<not> isspace c) t))"

text \<open>\<^verbatim>\<open>std::getline(iss >> std::ws, x)\<close>: skip white space, take up to the next LF.\<close>

definition getline_ws :: "string \<Rightarrow> string" where
  "getline_ws s = takeWhile (\<lambda>c. c \<noteq> CHR 0x0A) (dropWhile isspace s)"

text \<open>\<^verbatim>\<open>while (stream >> arg) args.push_back(arg)\<close>.\<close>

fun stream_tokens :: "nat \<Rightarrow> string \<Rightarrow> string list" where
  "stream_tokens 0 s = []"
| "stream_tokens (Suc fuel) s =
     (case read_token s of (t, rest) \<Rightarrow> if t = [] then [] else t # stream_tokens fuel rest)"

definition digit_val :: "char \<Rightarrow> nat" where
  "digit_val c = length (takeWhile (\<lambda>d. d \<noteq> c) ''0123456789'')"

definition decimal_value :: "string \<Rightarrow> nat" where
  "decimal_value ds = foldl (\<lambda>acc c. 10 * acc + digit_val c) 0 ds"

text \<open>
  What can end a handler without a normal return: the exceptions of \<^verbatim>\<open>std::stoul\<close>
  and of \<^verbatim>\<open>std::filesystem\<close>, and the fault of dereferencing a null pointer.
\<close>

datatype cxx_exception = invalid_argument | out_of_range | filesystem_error | null_dereference

text \<open>
  \<^verbatim>\<open>std::stoul(str)\<close> (base 10, 64-bit \<^verbatim>\<open>unsigned long\<close>): leading white space and one
  sign are skipped, the longest run of digits is converted, trailing text is ignored. No
  digit raises \<^verbatim>\<open>std::invalid_argument\<close>, a magnitude beyond \<open>2^64 - 1\<close> raises
  \<^verbatim>\<open>std::out_of_range\<close>, and a minus sign negates in the unsigned type.
\<close>

definition stoul :: "string \<Rightarrow> cxx_exception + nat" where
  "stoul str =
     (let s1 = dropWhile isspace str;
          neg = (s1 \<noteq> [] \<and> hd s1 = CHR ''-'');
          s2 = (if s1 \<noteq> [] \<and> (hd s1 = CHR ''-'' \<or> hd s1 = CHR ''+'') then tl s1 else s1);
          ds = takeWhile isdigit s2
      in if ds = [] then Inl invalid_argument
         else if decimal_value ds \<ge> 2 ^ 64 then Inl out_of_range
         else Inr (if neg then (2 ^ 64 - decimal_value ds) mod 2 ^ 64 else decimal_value ds))"

section \<open>Line session runtime (session.cpp)\<close>

text \<open>
  The state of \<^verbatim>\<open>class Session\<close> that the protocol sessions inherit: the input
  \<^verbatim>\<open>streambuf\<close>, the TLS flag, the stop flag, the strings handed to \<^verbatim>\<open>send\<close> in
  order, and the number of TLS handshakes started on the connection.
\<close>

record Session =
  read_buffer :: string
  is_tls :: bool
  stopped :: bool
  sent :: "string list"
  handshakes :: nat

text \<open>\<^verbatim>\<open>Session::send\<close> and \<^verbatim>\<open>Session::send_line\<close>.\<close>

definition send :: "string \<Rightarrow> 'a Session_scheme \<Rightarrow> 'a Session_scheme" where
  "send data s = s\<lparr>sent := sent s @ [data]\<rparr>"

definition send_line :: "string \<Rightarrow> 'a Session_scheme \<Rightarrow> 'a Session_scheme" where
  "send_line line s = send (line @ CRLF) s"

text \<open>\<^verbatim>\<open>Session::stop\<close>.\<close>

definition stop :: "'a Session_scheme \<Rightarrow> 'a Session_scheme" where
  "stop s = (if stopped s then s else s\<lparr>stopped := True\<rparr>)"

text \<open>
  \<^verbatim>\<open>Session::start_tls\<close>: the plain socket is wrapped into a TLS stream, \<^verbatim>\<open>is_tls_\<close>
  is set and the server handshake is started. No other member is assigned.
\<close>

definition start_tls :: "'a Session_scheme \<Rightarrow> 'a Session_scheme" where
  "start_tls s = (if is_tls s then s else s\<lparr>is_tls := True, handshakes := handshakes s + 1\<rparr>)"

text \<open>
  \<^verbatim>\<open>std::string::find("\r\n") != npos\<close>: the test POP3's \<^verbatim>\<open>process_command\<close> makes
  on a response, and the condition under which \<^verbatim>\<open>async_read_until(.., "\r\n", ..)\<close>
  completes from the bytes already in the buffer, without reading the socket.
\<close>

fun contains_crlf :: "string \<Rightarrow> bool" where
  "contains_crlf (a # b # rest) = ((a = CHR 0x0D \<and> b = CHR 0x0A) \<or> contains_crlf (b # rest))"
| "contains_crlf _ = False"

text \<open>
  The success path of \<^verbatim>\<open>Session::handle_read\<close> up to the call of \<^verbatim>\<open>do_read\<close>:
  \<^verbatim>\<open>std::getline\<close> takes the bytes up to the first LF out of the buffer, one trailing CR
  is dropped, and the line goes to the protocol's \<^verbatim>\<open>on_data\<close>; \<open>Inl\<close> is an exception
  leaving the handler.
\<close>

definition handle_read ::
  "(string \<Rightarrow> 'a Session_scheme \<Rightarrow> cxx_exception + 'a Session_scheme) \<Rightarrow>
   'a Session_scheme \<Rightarrow> cxx_exception + 'a Session_scheme" where
  "handle_read on_data s =
     (let line0 = takeWhile (\<lambda>c. c \<noteq> CHR 0x0A) (read_buffer s);
          rest = drop 1 (dropWhile (\<lambda>c. c \<noteq> CHR 0x0A) (read_buffer s));
          line = (if line0 \<noteq> [] \<and> last line0 = CHR 0x0D then butlast line0 else line0)
      in on_data line (s\<lparr>read_buffer := rest\<rparr>))"

text \<open>
  The read loop \<^verbatim>\<open>do_read\<close> / \<^verbatim>\<open>handle_read\<close> for the bytes that are already in the
  buffer: nothing is read once the session is stopped; while the buffer holds a CRLF the
  pending read completes at once and the next line is handled; otherwise the session waits
  for the socket, which is where this function returns.
\<close>

partial_function (option) do_read ::
  "(string \<Rightarrow> 'a Session_scheme \<Rightarrow> cxx_exception + 'a Session_scheme) \<Rightarrow>
   'a Session_scheme \<Rightarrow> (cxx_exception + 'a Session_scheme) option" where
  "do_read on_data s =
     (if stopped s \<or> \<not> contains_crlf (read_buffer s) then Some (Inr s)
      else (case handle_read on_data s of
              Inl e \<Rightarrow> Some (Inl e)
            | Inr s' \<Rightarrow> do_read on_data s'))"

section \<open>SMTP session: the DATA accumulator (smtp\_session.cpp)\<close>

datatype smtp_SessionState = CONNECTED | GREETED | MAIL | RCPT | DATA | QUIT

datatype AuthState = AUTH_NONE | PLAIN_WAITING | LOGIN_WAITING_USERNAME | LOGIN_WAITING_PASSWORD
  | AUTH_AUTHENTICATED

text \<open>\<^verbatim>\<open>struct Envelope\<close> of smtp\_session.hpp.\<close>

record Envelope =
  mail_from :: string
  rcpt_to :: "string list"
  env_data :: string

text \<open>\<^verbatim>\<open>Envelope::clear()\<close>.\<close>

definition envelope_clear :: "Envelope \<Rightarrow> Envelope" where
  "envelope_clear e = e\<lparr>mail_from := [], rcpt_to := [], env_data := []\<rparr>"

text \<open>
  The fields of \<^verbatim>\<open>SMTPSession\<close> that \<^verbatim>\<open>process_data_line\<close> reads or writes.
  \<open>smtp_deliveries\<close> records each call of \<^verbatim>\<open>deliver_message()\<close> with the envelope
  and data buffer it saw (delivery itself acts on the mail store and the network, outside
  the session object).
\<close>

record smtp_session = Session +
  smtp_state :: smtp_SessionState
  auth_state :: AuthState
  envelope :: Envelope
  data_buffer :: string
  max_message_size :: nat
  smtp_starttls_available :: bool
  smtp_ssl_context :: bool
  smtp_deliveries :: "(Envelope \<times> string) list"

text \<open>\<^verbatim>\<open>reply::make(code, message)\<close> of smtp\_commands.hpp.\<close>

definition reply_make :: "nat \<Rightarrow> string \<Rightarrow> string" where
  "reply_make code message = to_string code @ '' '' @ message"

text \<open>
  The dot-unstuffing step of \<^verbatim>\<open>process_data_line\<close>:
  \<^verbatim>\<open>if (!content_line.empty() && content_line[0] == '.') content_line = content_line.substr(1);\<close>
\<close>

definition dot_unstuff :: "string \<Rightarrow> string" where
  "dot_unstuff line = (if line \<noteq> [] \<and> hd line = CHR ''.'' then tl line else line)"

text \<open>
  \<^verbatim>\<open>SMTPSession::process_data_line\<close>. The parameter \<open>deliver_message\<close> stands for the
  boolean result of \<^verbatim>\<open>deliver_message()\<close> on the current envelope and buffer. Sizes are
  \<^verbatim>\<open>size_t\<close> lengths of strings held in memory, so the sum cannot wrap; they are \<open>nat\<close>.
\<close>

definition process_data_line ::
  "(Envelope \<Rightarrow> string \<Rightarrow> bool) \<Rightarrow> smtp_session \<Rightarrow> string \<Rightarrow> smtp_session" where
  "process_data_line deliver_message s line =
     (if line = ''.'' then
        (let ok = deliver_message (envelope s) (data_buffer s);
             s1 = s\<lparr>smtp_deliveries := smtp_deliveries s @ [(envelope s, data_buffer s)]\<rparr>;
             s2 = (if ok then send_line (reply_make 250 ''Message accepted for delivery'') s1
                   else send_line (reply_make 451 ''Delivery failed'') s1)
         in s2\<lparr>envelope := envelope_clear (envelope s2), smtp_state := GREETED,
                data_buffer := []\<rparr>)
      else
        (let content_line = dot_unstuff line
         in if length (data_buffer s) + length content_line + 2 > max_message_size s then
              (let s1 = send_line (reply_make 552 ''Message too large'') s
               in s1\<lparr>envelope := envelope_clear (envelope s1), smtp_state := GREETED,
                      data_buffer := []\<rparr>)
            else s\<lparr>data_buffer := data_buffer s @ content_line @ CRLF\<rparr>))"

section \<open>SMTP address parsing (smtp\_commands.cpp)\<close>

text \<open>
  \<^verbatim>\<open>std::string::find(char)\<close>: the index of the first occurrence, \<open>None\<close> for
  \<^verbatim>\<open>npos\<close>.
\<close>

definition str_find :: "char \<Rightarrow> string \<Rightarrow> nat option" where
  "str_find c s = (if c \<in> set s then Some (length (takeWhile (\<lambda>x. x \<noteq> c) s)) else None)"

text \<open>\<^verbatim>\<open>s.substr(pos, n)\<close> for \<open>pos \<le> length s\<close>, and \<^verbatim>\<open>s.substr(pos)\<close>.\<close>

definition substr :: "string \<Rightarrow> nat \<Rightarrow> nat \<Rightarrow> string" where
  "substr s pos n = take n (drop pos s)"

definition substr_from :: "string \<Rightarrow> nat \<Rightarrow> string" where
  "substr_from s pos = drop pos s"

text \<open>\<^verbatim>\<open>find_first_not_of\<close> and \<^verbatim>\<open>find_last_not_of\<close> for a set of characters.\<close>

definition find_first_not_of :: "string \<Rightarrow> string \<Rightarrow> nat option" where
  "find_first_not_of chars s =
     (if \<exists>x \<in> set s. x \<notin> set chars then Some (length (takeWhile (\<lambda>x. x \<in> set chars) s))
      else None)"

definition find_last_not_of :: "string \<Rightarrow> string \<Rightarrow> nat option" where
  "find_last_not_of chars s =
     (if \<exists>x \<in> set s. x \<notin> set chars
      then Some (length s - 1 - length (takeWhile (\<lambda>x. x \<in> set chars) (rev s)))
      else None)"

text \<open>\<^verbatim>\<open>struct EmailAddress\<close>.\<close>

record EmailAddress =
  local_part :: string
  domain :: string
  full_address :: string

text \<open>
  First step of \<^verbatim>\<open>EmailAddress::parse\<close>: the text between the first \<open><\<close> and the
  first \<open>>\<close> when both occur and the \<open>>\<close> comes later; otherwise the input as it is.
\<close>

definition extract_brackets :: "string \<Rightarrow> string" where
  "extract_brackets str =
     (case (str_find CHR ''<'' str, str_find CHR ''>'' str) of
        (Some start, Some end) \<Rightarrow>
          if end > start then substr str (start + 1) (end - start - 1) else str
      | _ \<Rightarrow> str)"

text \<open>
  Second step: trim spaces and tabs. When the string has no other character both
  searches give \<^verbatim>\<open>npos\<close> and the string is left as it is.
\<close>

definition trim_ws :: "string \<Rightarrow> string" where
  "trim_ws email =
     (case (find_first_not_of [CHR '' '', CHR 0x09] email,
            find_last_not_of [CHR '' '', CHR 0x09] email) of
        (Some trim_start, Some trim_end) \<Rightarrow> substr email trim_start (trim_end - trim_start + 1)
      | _ \<Rightarrow> email)"

text \<open>\<^verbatim>\<open>EmailAddress::parse\<close>; \<open>None\<close> is \<^verbatim>\<open>std::nullopt\<close>.\<close>

definition EmailAddress_parse :: "string \<Rightarrow> EmailAddress option" where
  "EmailAddress_parse str =
     (let email = trim_ws (extract_brackets str);
          at = str_find CHR ''@'' email
      in if at = None \<or> at = Some 0 \<or> at = Some (length email - 1) then
           (if email = [] then Some \<lparr>local_part = [], domain = [], full_address = []\<rparr>
            else None)
         else Some \<lparr>local_part = substr email 0 (the at),
                     domain = substr_from email (the at + 1),
                     full_address = email\<rparr>)"

section \<open>SMTP commands and dispatch (smtp\_commands.cpp, smtp\_session.cpp)\<close>

datatype smtp_CommandType = SC_HELO | SC_EHLO | SC_MAIL | SC_RCPT | SC_DATA | SC_RSET | SC_NOOP
  | SC_QUIT | SC_VRFY | SC_AUTH | SC_STARTTLS | SC_HELP | SC_UNKNOWN

record smtp_Command =
  smtp_type :: smtp_CommandType
  smtp_name :: string
  smtp_argument :: string

text \<open>\<^verbatim>\<open>Command::string_to_type\<close> of smtp\_commands.cpp.\<close>

definition smtp_string_to_type :: "string \<Rightarrow> smtp_CommandType" where
  "smtp_string_to_type name =
     (case map_of [(''HELO'', SC_HELO), (''EHLO'', SC_EHLO), (''MAIL FROM:'', SC_MAIL),
                   (''MAIL'', SC_MAIL), (''RCPT TO:'', SC_RCPT), (''RCPT'', SC_RCPT),
                   (''DATA'', SC_DATA), (''RSET'', SC_RSET), (''NOOP'', SC_NOOP),
                   (''QUIT'', SC_QUIT), (''VRFY'', SC_VRFY), (''AUTH'', SC_AUTH),
                   (''STARTTLS'', SC_STARTTLS), (''HELP'', SC_HELP)] name of
        Some t \<Rightarrow> t | None \<Rightarrow> SC_UNKNOWN)"

text \<open>\<^verbatim>\<open>line.find_first_of(" :")\<close>.\<close>

definition find_first_of :: "string \<Rightarrow> string \<Rightarrow> nat option" where
  "find_first_of chars s =
     (if \<exists>x \<in> set s. x \<in> set chars then Some (length (takeWhile (\<lambda>x. x \<notin> set chars) s))
      else None)"

text \<open>
  The first half of \<^verbatim>\<open>Command::parse\<close>: the command name before upper-casing and the
  position \<open>sep\<close> where the argument starts; \<open>None\<close> is \<^verbatim>\<open>npos\<close>.
\<close>

definition smtp_split_name :: "string \<Rightarrow> string \<times> nat option" where
  "smtp_split_name line =
     (case find_first_of '' :'' line of
        None \<Rightarrow> (line, None)
      | Some sep \<Rightarrow>
          (let name = substr line 0 sep
           in if line ! sep = CHR '' '' then
                (case str_find CHR '' '' (drop (sep + 1) line) of
                   Some k \<Rightarrow>
                     (let potential_qualifier = map toupper (substr line (sep + 1) k)
                      in if potential_qualifier = ''FROM:'' \<or> potential_qualifier = ''TO:''
                         then (name @ '' '' @ potential_qualifier, Some (sep + 1 + k))
                         else (name, Some sep))
                 | None \<Rightarrow>
                     (let rest = map toupper (substr_from line (sep + 1))
                      in if rest = ''FROM:'' \<or> rest = ''TO:''
                         then (name @ '' '' @ rest, Some (length line))
                         else (name, Some sep)))
              else (name, Some sep)))"

text \<open>\<^verbatim>\<open>Command::parse\<close> of smtp\_commands.cpp.\<close>

definition smtp_Command_parse :: "string \<Rightarrow> smtp_Command" where
  "smtp_Command_parse line =
     (if line = [] then \<lparr>smtp_type = SC_UNKNOWN, smtp_name = [], smtp_argument = []\<rparr>
      else (case smtp_split_name line of (name0, sep) \<Rightarrow>
        let name = map toupper name0;
            argument =
              (case sep of
                 None \<Rightarrow> []
               | Some p \<Rightarrow>
                   if p < length line then
                     (case find_first_not_of '' :'' (substr_from line p) of
                        Some start \<Rightarrow> substr_from (substr_from line p) start
                      | None \<Rightarrow> [])
                   else [])
        in \<lparr>smtp_type = smtp_string_to_type name, smtp_name = name, smtp_argument = argument\<rparr>))"

text \<open>\<^verbatim>\<open>CommandHandler::handle_noop\<close> and \<^verbatim>\<open>handle_starttls\<close> (build with TLS).\<close>

definition smtp_handle_noop :: "smtp_session \<Rightarrow> string \<times> smtp_session" where
  "smtp_handle_noop s = (reply_make 250 ''OK'', s)"

definition smtp_handle_starttls :: "smtp_session \<Rightarrow> string \<times> smtp_session" where
  "smtp_handle_starttls s =
     (if is_tls s then (reply_make 503 ''Already using TLS'', s)
      else if \<not> (smtp_starttls_available s \<and> \<not> is_tls s)
        then (reply_make 502 ''STARTTLS not available'', s)
      else if \<not> smtp_ssl_context s then (reply_make 451 ''TLS not configured'', s)
      else (let s1 = start_tls (send_line (reply_make 220 ''Ready to start TLS'') s)
            in ([], s1\<lparr>smtp_state := CONNECTED, envelope := envelope_clear (envelope s1)\<rparr>)))"

text \<open>
  \<^verbatim>\<open>SMTPSession::process_command\<close> with \<^verbatim>\<open>CommandHandler::execute\<close>; \<open>other\<close>
  stands for the handlers of the command types not modelled here.
\<close>

definition smtp_process_command ::
  "(smtp_session \<Rightarrow> smtp_Command \<Rightarrow> string \<times> smtp_session) \<Rightarrow> string \<Rightarrow> smtp_session \<Rightarrow> smtp_session" where
  "smtp_process_command other line s =
     (let cmd = smtp_Command_parse line in
      if smtp_type cmd = SC_UNKNOWN then send_line (reply_make 500 ''Unrecognized command'') s
      else (case (if smtp_type cmd = SC_NOOP then smtp_handle_noop s
                  else if smtp_type cmd = SC_STARTTLS then smtp_handle_starttls s
                  else other s cmd) of
              (response, s') \<Rightarrow>
                (let s'' = (if response \<noteq> [] then send_line response s' else s')
                 in if smtp_type cmd = SC_QUIT then stop s'' else s'')))"

text \<open>
  \<^verbatim>\<open>SMTPSession::on_data\<close>: in DATA state every line goes to \<^verbatim>\<open>process_data_line\<close>;
  during a SASL exchange to \<^verbatim>\<open>process_auth_response\<close>, for which \<open>auth_response\<close>
  stands; otherwise to \<^verbatim>\<open>process_command\<close>.
\<close>

definition smtp_on_data ::
  "(Envelope \<Rightarrow> string \<Rightarrow> bool) \<Rightarrow> (smtp_session \<Rightarrow> string \<Rightarrow> smtp_session) \<Rightarrow>
   (smtp_session \<Rightarrow> smtp_Command \<Rightarrow> string \<times> smtp_session) \<Rightarrow>
   smtp_session \<Rightarrow> string \<Rightarrow> smtp_session" where
  "smtp_on_data deliver_message auth_response other s line =
     (if smtp_state s = DATA then process_data_line deliver_message s line
      else if auth_state s = PLAIN_WAITING \<or> auth_state s = LOGIN_WAITING_USERNAME \<or>
              auth_state s = LOGIN_WAITING_PASSWORD then auth_response s line
      else smtp_process_command other line s)"


section \<open>POP3 session (pop3\_session.cpp, pop3\_commands.cpp)\<close>

datatype pop3_SessionState = AUTHORIZATION | TRANSACTION | UPDATE

datatype pop3_CommandType = USER | PASS | STAT | LIST | RETR | DELE | NOOP | RSET | QUIT_cmd
  | TOP | UIDL | CAPA | STLS | AUTH | APOP | UNKNOWN

text \<open>\<^verbatim>\<open>struct Command\<close> of pop3\_commands.hpp.\<close>

record pop3_Command =
  pop3_type :: pop3_CommandType
  pop3_name :: string
  pop3_argument :: string
  pop3_args :: "string list"

text \<open>\<^verbatim>\<open>Command::string_to_type\<close>.\<close>

definition pop3_string_to_type :: "string \<Rightarrow> pop3_CommandType" where
  "pop3_string_to_type name =
     (case map_of [(''USER'', USER), (''PASS'', PASS), (''STAT'', STAT), (''LIST'', LIST),
                   (''RETR'', RETR), (''DELE'', DELE), (''NOOP'', NOOP), (''RSET'', RSET),
                   (''QUIT'', QUIT_cmd), (''TOP'', TOP), (''UIDL'', UIDL), (''CAPA'', CAPA),
                   (''STLS'', STLS), (''AUTH'', AUTH), (''APOP'', APOP)] name of
        Some t \<Rightarrow> t | None \<Rightarrow> UNKNOWN)"

text \<open>\<^verbatim>\<open>Command::parse\<close>.\<close>

definition pop3_Command_parse :: "string \<Rightarrow> pop3_Command" where
  "pop3_Command_parse line =
     (if line = [] then \<lparr>pop3_type = UNKNOWN, pop3_name = [], pop3_argument = [], pop3_args = []\<rparr>
      else (case read_token line of (name0, rest) \<Rightarrow>
        let name = map toupper name0;
            argument = getline_ws rest
        in \<lparr>pop3_type = pop3_string_to_type name, pop3_name = name, pop3_argument = argument,
             pop3_args = stream_tokens (Suc (length argument)) argument\<rparr>))"

text \<open>
  \<^verbatim>\<open>struct MessageInfo\<close>. \<open>msg_size\<close> is the \<^verbatim>\<open>size_t size\<close> field, a 64-bit
  unsigned value; \<open>number\<close> is bounded by the vector length and kept as \<open>nat\<close>.
\<close>

record MessageInfo =
  number :: nat
  info_unique_id :: string
  msg_size :: "64 word"
  deleted :: bool

text \<open>
  The fields of \<^verbatim>\<open>POP3Session\<close> used by the commands below.
\<close>

record pop3_session = Session +
  pop3_state :: pop3_SessionState
  pop3_messages :: "MessageInfo list"
  deleted_messages :: "nat set"
  pop3_starttls_available :: bool
  pop3_ssl_context :: bool

text \<open>\<^verbatim>\<open>response::ok\<close> and \<^verbatim>\<open>response::err\<close>.\<close>

definition response_ok :: "string \<Rightarrow> string" where
  "response_ok msg = (if msg = [] then ''+OK'' else ''+OK'' @ '' '' @ msg)"

definition response_err :: "string \<Rightarrow> string" where
  "response_err msg = (if msg = [] then ''-ERR'' else ''-ERR'' @ '' '' @ msg)"

text \<open>\<^verbatim>\<open>POP3Session::get_message\<close>.\<close>

definition pop3_get_message :: "pop3_session \<Rightarrow> nat \<Rightarrow> MessageInfo option" where
  "pop3_get_message s n =
     (if n < 1 \<or> n > length (pop3_messages s) then None
      else Some ((pop3_messages s ! (n - 1))\<lparr>deleted := n \<in> deleted_messages s\<rparr>))"

text \<open>\<^verbatim>\<open>POP3Session::mark_deleted\<close> and \<^verbatim>\<open>reset_deleted\<close>.\<close>

definition mark_deleted :: "pop3_session \<Rightarrow> nat \<Rightarrow> bool \<times> pop3_session" where
  "mark_deleted s n =
     (if n < 1 \<or> n > length (pop3_messages s) then (False, s)
      else (True, s\<lparr>deleted_messages := insert n (deleted_messages s)\<rparr>))"

definition reset_deleted :: "pop3_session \<Rightarrow> pop3_session" where
  "reset_deleted s = s\<lparr>deleted_messages := {}\<rparr>"

text \<open>
  \<^verbatim>\<open>POP3Session::total_messages\<close> and \<^verbatim>\<open>total_size\<close>: the loops over
  \<open>i = 0 .. size-1\<close>; the size accumulator is a \<^verbatim>\<open>size_t\<close> and wraps at \<open>2^64\<close>.
\<close>

definition total_messages :: "pop3_session \<Rightarrow> nat" where
  "total_messages s =
     foldl (\<lambda>count i. if i + 1 \<notin> deleted_messages s then count + 1 else count) 0
       [0 ..< length (pop3_messages s)]"

definition total_size :: "pop3_session \<Rightarrow> 64 word" where
  "total_size s =
     foldl (\<lambda>size i. if i + 1 \<notin> deleted_messages s then size + msg_size (pop3_messages s ! i)
                     else size) 0
       [0 ..< length (pop3_messages s)]"

text \<open>\<^verbatim>\<open>CommandHandler::handle_stat\<close>.\<close>

definition handle_stat :: "pop3_session \<Rightarrow> string" where
  "handle_stat s =
     (if pop3_state s \<noteq> TRANSACTION then response_err ''Not authenticated''
      else response_ok (to_string (total_messages s) @ '' '' @ to_string (unat (total_size s))))"

text \<open>
  \<^verbatim>\<open>CommandHandler::handle_dele\<close>; \<open>Inl\<close> is the exception leaving \<^verbatim>\<open>std::stoul\<close>,
  raised before the session is touched.
\<close>

definition handle_dele :: "pop3_session \<Rightarrow> pop3_Command \<Rightarrow> cxx_exception + (string \<times> pop3_session)" where
  "handle_dele s cmd =
     (if pop3_state s \<noteq> TRANSACTION then Inr (response_err ''Not authenticated'', s)
      else if pop3_argument cmd = [] then Inr (response_err ''Message number required'', s)
      else (case stoul (pop3_argument cmd) of
              Inl e \<Rightarrow> Inl e
            | Inr msg_num \<Rightarrow>
                (case pop3_get_message s msg_num of
                   None \<Rightarrow> Inr (response_err ''No such message'', s)
                 | Some msg \<Rightarrow>
                     if deleted msg then Inr (response_err ''Message already deleted'', s)
                     else (case mark_deleted s msg_num of
                             (True, s') \<Rightarrow>
                               Inr (response_ok (''Message '' @ to_string msg_num @ '' deleted''), s')
                           | (False, s') \<Rightarrow> Inr (response_err ''Unable to delete message'', s')))))"

text \<open>\<^verbatim>\<open>CommandHandler::handle_rset\<close>.\<close>

definition handle_rset :: "pop3_session \<Rightarrow> string \<times> pop3_session" where
  "handle_rset s =
     (if pop3_state s \<noteq> TRANSACTION then (response_err ''Not authenticated'', s)
      else (let s' = reset_deleted s
            in (response_ok (to_string (total_messages s') @ '' messages restored''), s')))"

text \<open>\<^verbatim>\<open>CommandHandler::handle_noop\<close> and \<^verbatim>\<open>handle_stls\<close> (build with TLS).\<close>

definition pop3_handle_noop :: "pop3_session \<Rightarrow> string \<times> pop3_session" where
  "pop3_handle_noop s =
     (if pop3_state s \<noteq> TRANSACTION then (response_err ''Not authenticated'', s)
      else (response_ok [], s))"

definition handle_stls :: "pop3_session \<Rightarrow> string \<times> pop3_session" where
  "handle_stls s =
     (if is_tls s then (response_err ''Already using TLS'', s)
      else if pop3_state s \<noteq> AUTHORIZATION
        then (response_err ''STLS only allowed before authentication'', s)
      else if \<not> (pop3_starttls_available s \<and> \<not> is_tls s)
        then (response_err ''STLS not available'', s)
      else if \<not> pop3_ssl_context s then (response_err ''TLS not configured'', s)
      else ([], start_tls (send_line (response_ok ''Begin TLS negotiation'') s)))"

text \<open>
  \<^verbatim>\<open>CommandHandler::execute\<close> of pop3\_commands.cpp: the handlers modelled above, the
  answer for APOP, which has no registered handler, and \<open>other\<close> for the remaining types.
  \<open>Inl\<close> is an exception leaving the handler.
\<close>

definition pop3_execute ::
  "(pop3_session \<Rightarrow> pop3_Command \<Rightarrow> cxx_exception + (string \<times> pop3_session)) \<Rightarrow>
   pop3_session \<Rightarrow> pop3_Command \<Rightarrow> cxx_exception + (string \<times> pop3_session)" where
  "pop3_execute other s cmd =
     (if pop3_type cmd = STAT then Inr (handle_stat s, s)
      else if pop3_type cmd = DELE then handle_dele s cmd
      else if pop3_type cmd = RSET then Inr (handle_rset s)
      else if pop3_type cmd = NOOP then Inr (pop3_handle_noop s)
      else if pop3_type cmd = STLS then Inr (handle_stls s)
      else if pop3_type cmd = APOP \<or> pop3_type cmd = UNKNOWN
        then Inr (response_err ''Unknown command'', s)
      else other s cmd)"

text \<open>
  \<^verbatim>\<open>POP3Session::process_command\<close>, which is \<^verbatim>\<open>on_data\<close> for POP3. An exception
  leaves it before any response is sent.
\<close>

definition pop3_process_command ::
  "(pop3_session \<Rightarrow> pop3_Command \<Rightarrow> cxx_exception + (string \<times> pop3_session)) \<Rightarrow>
   string \<Rightarrow> pop3_session \<Rightarrow> cxx_exception + pop3_session" where
  "pop3_process_command other line s =
     (let cmd = pop3_Command_parse line in
      if pop3_type cmd = UNKNOWN then Inr (send_line (response_err ''Unknown command'') s)
      else (case pop3_execute other s cmd of
              Inl e \<Rightarrow> Inl e
            | Inr (response, s') \<Rightarrow>
                (let s'' = (if response \<noteq> [] then
                              (if contains_crlf response then send (response @ CRLF) s'
                               else send_line response s')
                            else s')
                 in Inr (if pop3_type cmd = QUIT_cmd then stop s'' else s''))))"



text \<open>What DELE and RSET preserve: the state, the message vector, and that every marked
  number is a valid message number.\<close>

definition pop3_inv :: "pop3_session \<Rightarrow> pop3_session \<Rightarrow> bool" where
  "pop3_inv s0 s \<longleftrightarrow> pop3_state s = TRANSACTION \<and> pop3_messages s = pop3_messages s0 \<and>
     deleted_messages s \<subseteq> {1..length (pop3_messages s0)}"



section \<open>Maildir store (maildir.cpp)\<close>

text \<open>
  A file of a \<^verbatim>\<open>cur/\<close> or \<^verbatim>\<open>new/\<close> directory: its name, what
  \<^verbatim>\<open>std::filesystem::file_size\<close> and \<^verbatim>\<open>last_write_time\<close> (in seconds) report, and its
  content.
\<close>

record file_entry =
  fname :: string
  fsize :: "64 word"
  mtime :: int
  fdata :: string

text \<open>
  A mailbox directory as \<^verbatim>\<open>ensure_mailbox_dirs\<close> creates it: the entries of
  \<^verbatim>\<open>cur/\<close> and \<^verbatim>\<open>new/\<close> in the order \<^verbatim>\<open>directory_iterator\<close> yields them, and the
  \<^verbatim>\<open>.uidvalidity\<close> file, \<open>None\<close> when absent, otherwise the unsigned 32-bit decimal
  numbers it holds. The store maps the directory of a mailbox, relative to the user's
  maildir path, to its content; \<open>None\<close> when the directory does not exist.
\<close>

record mailbox_dir =
  cur_dir :: "file_entry list"
  new_dir :: "file_entry list"
  uidvalidity_file :: "32 word list option"

type_synonym maildir_fs = "string \<Rightarrow> mailbox_dir option"

text \<open>\<^verbatim>\<open>struct Message\<close>; \<open>path\<close> is the pair of \<open>is_new\<close> directory and file name.\<close>

record Message =
  unique_id :: string
  path :: "bool \<times> string"
  msg_bytes :: "64 word"
  timestamp :: int
  flags :: "char set"
  is_new :: bool
  mailbox :: string

text \<open>\<^verbatim>\<open>struct MailboxInfo\<close>.\<close>

record MailboxInfo =
  info_name :: string
  total_messages_count :: nat
  recent_messages :: nat
  unseen_messages :: nat
  info_total_size :: "64 word"
  uid_validity :: "32 word"
  uid_next :: "32 word"
  is_selectable :: bool
  has_children :: bool
  info_flags :: "string list"

definition backslash :: char where
  "backslash = CHR 0x5C"

text \<open>\<^verbatim>\<open>Maildir::get_mailbox_path\<close>, relative to \<^verbatim>\<open>maildir_path_\<close>.\<close>

definition get_mailbox_path :: "string \<Rightarrow> string" where
  "get_mailbox_path mbox =
     (if mbox = [] \<or> mbox = ''INBOX'' then []
      else map (\<lambda>c. if c = CHR ''/'' then CHR ''.'' else c) (CHR ''.'' # mbox))"

text \<open>\<^verbatim>\<open>std::string::find(const std::string&)\<close>: first position of a substring.\<close>

fun find_sub :: "string \<Rightarrow> string \<Rightarrow> nat option" where
  "find_sub pat [] = (if pat = [] then Some 0 else None)"
| "find_sub pat (c # cs) =
     (if take (length pat) (c # cs) = pat then Some 0 else map_option Suc (find_sub pat cs))"

text \<open>\<^verbatim>\<open>Maildir::parse_flags\<close>.\<close>

definition parse_flags :: "string \<Rightarrow> char set" where
  "parse_flags filename =
     (case find_sub '':2,'' filename of
        Some pos \<Rightarrow> set (drop (pos + 3) filename)
      | None \<Rightarrow> {})"

text \<open>
  \<^verbatim>\<open>Maildir::parse_message_file\<close> for an entry that \<^verbatim>\<open>directory_iterator\<close> has just
  yielded (so the file exists).
\<close>

definition parse_message_file :: "bool \<Rightarrow> string \<Rightarrow> file_entry \<Rightarrow> Message" where
  "parse_message_file in_new mbox f =
     \<lparr>unique_id = (case str_find CHR '':'' (fname f) of
                     Some colon_pos \<Rightarrow> substr (fname f) 0 colon_pos
                   | None \<Rightarrow> fname f),
      path = (in_new, fname f),
      msg_bytes = fsize f,
      timestamp = mtime f,
      flags = parse_flags (fname f),
      is_new = in_new,
      mailbox = (if mbox = [] then ''INBOX'' else mbox)\<rparr>"

text \<open>
  \<^verbatim>\<open>std::sort(messages.begin(), messages.end(), cmp)\<close> with the comparison by time stamp
  is a parameter \<open>std_sort\<close> of the functions that list a mailbox. What is known of it is
  \<open>std_sort_spec\<close>: the result is a rearrangement of the argument in ascending order of
  time stamp. The order it gives to messages of equal time stamp is not specified.
\<close>

definition std_sort_spec :: "(Message list \<Rightarrow> Message list) \<Rightarrow> bool" where
  "std_sort_spec std_sort =
     (\<forall>xs. (\<forall>x. count_list (std_sort xs) x = count_list xs x) \<and>
           sorted (map timestamp (std_sort xs)))"

text \<open>\<^verbatim>\<open>Maildir::list_messages\<close>.\<close>

definition list_messages ::
  "(Message list \<Rightarrow> Message list) \<Rightarrow> maildir_fs \<Rightarrow> string \<Rightarrow> Message list" where
  "list_messages std_sort fs mbox =
     (case fs (get_mailbox_path mbox) of
        None \<Rightarrow> []
      | Some d \<Rightarrow>
          std_sort
            (map (parse_message_file False mbox) (cur_dir d) @
             map (parse_message_file True mbox) (new_dir d)))"

text \<open>
  \<^verbatim>\<open>Maildir::get_message\<close>: the first entry of \<^verbatim>\<open>cur/\<close>, else of \<^verbatim>\<open>new/\<close>, whose
  file name starts with \<open>unique_id\<close> (\<^verbatim>\<open>filename.find(unique_id) == 0\<close>). Iterating a
  directory that does not exist throws.
\<close>

definition starts_with :: "string \<Rightarrow> string \<Rightarrow> bool" where
  "starts_with filename uid = (take (length uid) filename = uid)"

definition get_message :: "maildir_fs \<Rightarrow> string \<Rightarrow> string \<Rightarrow> cxx_exception + Message option" where
  "get_message fs uid mbox =
     (case fs (get_mailbox_path mbox) of
        None \<Rightarrow> Inl filesystem_error
      | Some d \<Rightarrow>
          (case find (\<lambda>f. starts_with (fname f) uid) (cur_dir d) of
             Some f \<Rightarrow> Inr (Some (parse_message_file False mbox f))
           | None \<Rightarrow>
               (case find (\<lambda>f. starts_with (fname f) uid) (new_dir d) of
                  Some f \<Rightarrow> Inr (Some (parse_message_file True mbox f))
                | None \<Rightarrow> Inr None)))"

text \<open>\<^verbatim>\<open>std::filesystem::remove(msg->path)\<close> inside the mailbox directory of \<open>mbox\<close>.\<close>

definition remove_file :: "maildir_fs \<Rightarrow> string \<Rightarrow> bool \<times> string \<Rightarrow> maildir_fs" where
  "remove_file fs mbox p =
     (case fs (get_mailbox_path mbox) of
        None \<Rightarrow> fs
      | Some d \<Rightarrow>
          fs (get_mailbox_path mbox \<mapsto>
            (if fst p then d\<lparr>new_dir := filter (\<lambda>f. fname f \<noteq> snd p) (new_dir d)\<rparr>
             else d\<lparr>cur_dir := filter (\<lambda>f. fname f \<noteq> snd p) (cur_dir d)\<rparr>)))"

text \<open>\<^verbatim>\<open>Maildir::delete_message\<close>.\<close>

definition delete_message :: "maildir_fs \<Rightarrow> string \<Rightarrow> string \<Rightarrow> cxx_exception + (bool \<times> maildir_fs)" where
  "delete_message fs uid mbox =
     (case get_message fs uid mbox of
        Inl e \<Rightarrow> Inl e
      | Inr None \<Rightarrow> Inr (False, fs)
      | Inr (Some msg) \<Rightarrow> Inr (True, remove_file fs mbox (path msg)))"

text \<open>\<^verbatim>\<open>Maildir::get_message_content\<close>: the bytes of the file \<^verbatim>\<open>get_message\<close> found.\<close>

definition read_file :: "maildir_fs \<Rightarrow> string \<Rightarrow> bool \<times> string \<Rightarrow> string option" where
  "read_file fs mbox p =
     (case fs (get_mailbox_path mbox) of
        None \<Rightarrow> None
      | Some d \<Rightarrow> map_option fdata
          (find (\<lambda>f. fname f = snd p) (if fst p then new_dir d else cur_dir d)))"

definition get_message_content :: "maildir_fs \<Rightarrow> string \<Rightarrow> string \<Rightarrow> cxx_exception + string option" where
  "get_message_content fs uid mbox =
     (case get_message fs uid mbox of
        Inl e \<Rightarrow> Inl e
      | Inr None \<Rightarrow> Inr None
      | Inr (Some msg) \<Rightarrow> Inr (read_file fs mbox (path msg)))"

text \<open>\<^verbatim>\<open>Maildir::get_message_headers\<close>.\<close>

definition get_message_headers :: "maildir_fs \<Rightarrow> string \<Rightarrow> string \<Rightarrow> cxx_exception + string option" where
  "get_message_headers fs uid mbox =
     (case get_message_content fs uid mbox of
        Inl e \<Rightarrow> Inl e
      | Inr None \<Rightarrow> Inr None
      | Inr (Some content) \<Rightarrow>
          (case (case find_sub (CRLF @ CRLF) content of
                   Some pos \<Rightarrow> Some pos
                 | None \<Rightarrow> find_sub [CHR 0x0A, CHR 0x0A] content) of
             Some pos \<Rightarrow> Inr (Some (substr content 0 pos))
           | None \<Rightarrow> Inr (Some content)))"

subsection \<open>UID bookkeeping\<close>

text \<open>
  What \<^verbatim>\<open>file >> validity >> next_uid\<close> leaves in \<^verbatim>\<open>allocate_uid\<close>, starting from
  \<^verbatim>\<open>validity = 0\<close> and \<^verbatim>\<open>next_uid = 1\<close>: a number that is not there fails the stream
  and leaves the variable as it was.
\<close>

definition read_uid_file :: "maildir_fs \<Rightarrow> string \<Rightarrow> 32 word \<times> 32 word" where
  "read_uid_file fs mbox =
     (case fs (get_mailbox_path mbox) of
        None \<Rightarrow> (0, 1)
      | Some d \<Rightarrow>
          (case uidvalidity_file d of
             None \<Rightarrow> (0, 1)
           | Some [] \<Rightarrow> (0, 1)
           | Some [validity] \<Rightarrow> (validity, 1)
           | Some (validity # next_uid # rest) \<Rightarrow> (validity, next_uid)))"

text \<open>
  \<^verbatim>\<open>std::ofstream file(uidvalidity_file); file << a << "\n" << b << "\n";\<close> The file is
  created or truncated when its directory exists; otherwise opening fails and nothing is
  written.
\<close>

definition write_uid_file :: "maildir_fs \<Rightarrow> string \<Rightarrow> 32 word \<Rightarrow> 32 word \<Rightarrow> maildir_fs" where
  "write_uid_file fs mbox a b =
     (case fs (get_mailbox_path mbox) of
        None \<Rightarrow> fs
      | Some d \<Rightarrow> fs (get_mailbox_path mbox \<mapsto> d\<lparr>uidvalidity_file := Some [a, b]\<rparr>))"

text \<open>
  \<^verbatim>\<open>Maildir::get_uid_validity\<close>; \<open>now\<close> is the clock reading in seconds, cast to
  \<^verbatim>\<open>uint32_t\<close>.
\<close>

definition get_uid_validity :: "32 word \<Rightarrow> maildir_fs \<Rightarrow> string \<Rightarrow> 32 word \<times> maildir_fs" where
  "get_uid_validity now fs mbox =
     (case (case fs (get_mailbox_path mbox) of
              None \<Rightarrow> None
            | Some d \<Rightarrow> (case uidvalidity_file d of
                           Some (validity # rest) \<Rightarrow> Some validity
                         | _ \<Rightarrow> None)) of
        Some validity \<Rightarrow> (validity, fs)
      | None \<Rightarrow> (now, write_uid_file fs mbox now 1))"

text \<open>\<^verbatim>\<open>Maildir::allocate_uid\<close>; \<open>next_uid + 1\<close> is \<^verbatim>\<open>uint32_t\<close> arithmetic.\<close>

definition allocate_uid :: "maildir_fs \<Rightarrow> string \<Rightarrow> 32 word \<times> maildir_fs" where
  "allocate_uid fs mbox =
     (case read_uid_file fs mbox of
        (validity, next_uid) \<Rightarrow> (next_uid, write_uid_file fs mbox validity (next_uid + 1)))"

text \<open>\<open>n\<close> calls of \<^verbatim>\<open>allocate_uid\<close> in sequence on one mailbox: the values returned, in
  order, and the store afterwards.\<close>

fun allocate_uid_times :: "nat \<Rightarrow> maildir_fs \<Rightarrow> string \<Rightarrow> 32 word list \<times> maildir_fs" where
  "allocate_uid_times 0 fs mbox = ([], fs)"
| "allocate_uid_times (Suc n) fs mbox =
     (case allocate_uid fs mbox of
        (u, fs') \<Rightarrow> (case allocate_uid_times n fs' mbox of (us, fs'') \<Rightarrow> (u # us, fs'')))"

text \<open>
  \<^verbatim>\<open>Maildir::get_mailbox_info\<close>. The test \<^verbatim>\<open>exists(path / "cur")\<close> is the existence
  of the mailbox directory.
\<close>

definition get_mailbox_info ::
  "(Message list \<Rightarrow> Message list) \<Rightarrow> 32 word \<Rightarrow> maildir_fs \<Rightarrow> string \<Rightarrow>
   MailboxInfo option \<times> maildir_fs" where
  "get_mailbox_info std_sort now fs name =
     (if fs (get_mailbox_path name) = None then (None, fs)
      else
        (case get_uid_validity now fs name of (validity, fs1) \<Rightarrow>
         case allocate_uid fs1 name of (next, fs2) \<Rightarrow>
         let messages = list_messages std_sort fs2 name
         in (Some \<lparr>info_name = (if name = [] then ''INBOX'' else name),
                    total_messages_count = length messages,
                    recent_messages = length (filter is_new messages),
                    unseen_messages = length (filter (\<lambda>m. CHR ''S'' \<notin> flags m) messages),
                    info_total_size = foldl (\<lambda>total m. total + msg_bytes m) 0 messages,
                    uid_validity = validity,
                    uid_next = next,
                    is_selectable = True,
                    has_children = False,
                    info_flags = [backslash # ''Seen'', backslash # ''Answered'',
                                  backslash # ''Flagged'', backslash # ''Deleted'',
                                  backslash # ''Draft'']\<rparr>, fs2)))"

text \<open>A mailbox whose counter has reached the largest 32-bit value, and a fresh one.\<close>

definition c8_dir :: mailbox_dir where
  "c8_dir = \<lparr>cur_dir = [], new_dir = [], uidvalidity_file = Some [7, 4294967295]\<rparr>"

definition c8_fs :: maildir_fs where
  "c8_fs = (\<lambda>p. if p = [] then Some c8_dir else None)"

definition fresh_dir :: mailbox_dir where
  "fresh_dir = \<lparr>cur_dir = [], new_dir = [], uidvalidity_file = None\<rparr>"

definition fresh_fs :: maildir_fs where
  "fresh_fs = (\<lambda>p. if p = [] then Some fresh_dir else None)"


section \<open>IMAP parser (imap\_parser.cpp)\<close>

text \<open>\<^verbatim>\<open>SequenceSet::Range\<close>; \<open>range_end = 0\<close> stands for \<open>*\<close>.\<close>

record SeqRange =
  range_start :: "32 word"
  range_end :: "32 word"

text \<open>\<^verbatim>\<open>SequenceSet::contains\<close>; \<^verbatim>\<open>UINT32_MAX\<close> is \<open>- 1\<close> in 32-bit arithmetic.\<close>

definition contains :: "SeqRange list \<Rightarrow> 32 word \<Rightarrow> bool" where
  "contains ranges num =
     (\<exists>r \<in> set ranges.
        num \<ge> range_start r \<and> num \<le> (if range_end r = 0 then - 1 else range_end r))"

text \<open>
  \<^verbatim>\<open>while (std::getline(iss, token, ','))\<close>: every delimiter ends a token, possibly an
  empty one; text after the last delimiter is a token when it is not empty.
\<close>

fun split_tokens :: "char \<Rightarrow> string \<Rightarrow> string \<Rightarrow> string list" where
  "split_tokens delim acc [] = (if acc = [] then [] else [rev acc])"
| "split_tokens delim acc (c # cs) =
     (if c = delim then rev acc # split_tokens delim [] cs else split_tokens delim (c # acc) cs)"

text \<open>The conversion of the \<^verbatim>\<open>unsigned long\<close> result of \<^verbatim>\<open>std::stoul\<close> to \<^verbatim>\<open>uint32_t\<close>.\<close>

definition stoul32 :: "string \<Rightarrow> cxx_exception + 32 word" where
  "stoul32 str = (case stoul str of Inl e \<Rightarrow> Inl e | Inr n \<Rightarrow> Inr (of_nat n))"

text \<open>One iteration of the loop of \<^verbatim>\<open>SequenceSet::parse\<close>.\<close>

definition parse_range :: "string \<Rightarrow> cxx_exception + SeqRange" where
  "parse_range token =
     (case str_find CHR '':'' token of
        Some colon_pos \<Rightarrow>
          (let start_str = substr token 0 colon_pos;
               end_str = substr_from token (colon_pos + 1)
           in case (if start_str = ''*'' then Inr (- 1) else stoul32 start_str) of
                Inl e \<Rightarrow> Inl e
              | Inr st \<Rightarrow>
                  (case (if end_str = ''*'' then Inr 0 else stoul32 end_str) of
                     Inl e \<Rightarrow> Inl e
                   | Inr en \<Rightarrow>
                       if en \<noteq> 0 \<and> st > en then Inr \<lparr>range_start = en, range_end = st\<rparr>
                       else Inr \<lparr>range_start = st, range_end = en\<rparr>))
      | None \<Rightarrow>
          if token = ''*'' then Inr \<lparr>range_start = - 1, range_end = 0\<rparr>
          else (case stoul32 token of
                  Inl e \<Rightarrow> Inl e
                | Inr st \<Rightarrow> Inr \<lparr>range_start = st, range_end = st\<rparr>))"

fun parse_ranges :: "string list \<Rightarrow> cxx_exception + SeqRange list" where
  "parse_ranges [] = Inr []"
| "parse_ranges (token # rest) =
     (case parse_range token of
        Inl e \<Rightarrow> Inl e
      | Inr r \<Rightarrow> (case parse_ranges rest of Inl e \<Rightarrow> Inl e | Inr rs \<Rightarrow> Inr (r # rs)))"

text \<open>\<^verbatim>\<open>SequenceSet::parse\<close> and \<^verbatim>\<open>IMAPParser::parse_sequence_set\<close>.\<close>

definition SequenceSet_parse :: "string \<Rightarrow> cxx_exception + SeqRange list" where
  "SequenceSet_parse str = parse_ranges (split_tokens CHR '','' [] str)"

definition parse_sequence_set :: "string \<Rightarrow> cxx_exception + SeqRange list option" where
  "parse_sequence_set str =
     (if str = [] then Inr None
      else (case SequenceSet_parse str of Inl e \<Rightarrow> Inl e | Inr rs \<Rightarrow> Inr (Some rs)))"

datatype FetchItemType = FI_ALL | FI_FAST | FI_FULL | FI_ENVELOPE | FI_FLAGS | FI_INTERNALDATE
  | FI_RFC822 | FI_RFC822_HEADER | FI_RFC822_SIZE | FI_RFC822_TEXT | FI_BODY | FI_BODY_PEEK
  | FI_BODYSTRUCTURE | FI_UID

record FetchItem =
  fi_type :: FetchItemType
  fi_section :: string

text \<open>The section text between the first \<open>[\<close> and the next \<open>]\<close> of a BODY token.\<close>

definition parse_section :: "string \<Rightarrow> string" where
  "parse_section token =
     (case str_find CHR ''['' token of
        None \<Rightarrow> []
      | Some bracket_pos \<Rightarrow>
          (case str_find CHR '']'' (drop bracket_pos token) of
             None \<Rightarrow> []
           | Some k \<Rightarrow> substr token (bracket_pos + 1) (k - 1)))"

text \<open>
  The chain of comparisons in \<^verbatim>\<open>IMAPParser::parse_fetch_items\<close> for one upper-cased
  token, in the order of the source; \<open>None\<close> is the skipped unknown item.
\<close>

definition fetch_item_of_token :: "string \<Rightarrow> FetchItem option" where
  "fetch_item_of_token token =
     (if token = ''ALL'' then Some \<lparr>fi_type = FI_ALL, fi_section = []\<rparr>
      else if token = ''FAST'' then Some \<lparr>fi_type = FI_FAST, fi_section = []\<rparr>
      else if token = ''FULL'' then Some \<lparr>fi_type = FI_FULL, fi_section = []\<rparr>
      else if token = ''ENVELOPE'' then Some \<lparr>fi_type = FI_ENVELOPE, fi_section = []\<rparr>
      else if token = ''FLAGS'' then Some \<lparr>fi_type = FI_FLAGS, fi_section = []\<rparr>
      else if token = ''INTERNALDATE'' then Some \<lparr>fi_type = FI_INTERNALDATE, fi_section = []\<rparr>
      else if token = ''RFC822'' then Some \<lparr>fi_type = FI_RFC822, fi_section = []\<rparr>
      else if token = ''RFC822.HEADER'' then Some \<lparr>fi_type = FI_RFC822_HEADER, fi_section = []\<rparr>
      else if token = ''RFC822.SIZE'' then Some \<lparr>fi_type = FI_RFC822_SIZE, fi_section = []\<rparr>
      else if token = ''RFC822.TEXT'' then Some \<lparr>fi_type = FI_RFC822_TEXT, fi_section = []\<rparr>
      else if starts_with token ''BODY.PEEK''
        then Some \<lparr>fi_type = FI_BODY_PEEK, fi_section = parse_section token\<rparr>
      else if starts_with token ''BODY''
        then Some \<lparr>fi_type = FI_BODY, fi_section = parse_section token\<rparr>
      else if token = ''BODYSTRUCTURE'' then Some \<lparr>fi_type = FI_BODYSTRUCTURE, fi_section = []\<rparr>
      else if token = ''UID'' then Some \<lparr>fi_type = FI_UID, fi_section = []\<rparr>
      else None)"

text \<open>The removal of one pair of surrounding parentheses, as in \<^verbatim>\<open>parse_fetch_items\<close>.\<close>

definition strip_parens :: "string \<Rightarrow> string" where
  "strip_parens str =
     (if str \<noteq> [] \<and> hd str = CHR ''(''
      then (let s = tl str in if s \<noteq> [] \<and> last s = CHR '')'' then butlast s else s)
      else str)"

text \<open>
  \<^verbatim>\<open>IMAPParser::parse_fetch_items\<close>. The token loop ends when the stream is exhausted;
  each token takes at least one character, so the length of the text bounds the iterations.
\<close>

definition parse_fetch_items :: "string \<Rightarrow> FetchItem list" where
  "parse_fetch_items str =
     (let s = strip_parens str
      in List.map_filter (\<lambda>token. fetch_item_of_token (map toupper token))
           (stream_tokens (Suc (length s)) s))"

text \<open>\<^verbatim>\<open>std::iscntrl\<close> in the C locale and \<^verbatim>\<open>IMAPParser::is_atom_char\<close>.\<close>

definition iscntrl :: "char \<Rightarrow> bool" where
  "iscntrl c = ((of_char c :: nat) < 32 \<or> (of_char c :: nat) = 127)"

definition is_atom_char :: "char \<Rightarrow> bool" where
  "is_atom_char c =
     (\<not> (isspace c \<or> iscntrl c) \<and>
      c \<notin> set [CHR ''('', CHR '')'', CHR ''{'', CHR 0x22, CHR 0x5C, CHR ''%'', CHR ''*'',
                 CHR ''['', CHR '']''])"

text \<open>
  \<^verbatim>\<open>IMAPParser::parse_atom\<close> and \<^verbatim>\<open>parse_string\<close>, on the text from position
  \<open>pos\<close> on; the second component is the text left after the new position.
\<close>

definition parse_atom :: "string \<Rightarrow> string option \<times> string" where
  "parse_atom str =
     (let s = dropWhile isspace str;
          result = takeWhile is_atom_char s
      in (if result = [] then None else Some result, dropWhile is_atom_char s))"

text \<open>The loop over a quoted string: a backslash that is not last takes the next character.\<close>

fun parse_quoted :: "string \<Rightarrow> string \<Rightarrow> string \<times> string" where
  "parse_quoted acc [] = (rev acc, [])"
| "parse_quoted acc [c] = (if c = CHR 0x22 then (rev acc, []) else (rev (c # acc), []))"
| "parse_quoted acc (c # d # rest) =
     (if c = CHR 0x22 then (rev acc, d # rest)
      else if c = CHR 0x5C then parse_quoted (d # acc) rest
      else parse_quoted (c # acc) (d # rest))"

definition parse_string :: "string \<Rightarrow> string option \<times> string" where
  "parse_string str =
     (let s = dropWhile isspace str
      in if s = [] then (None, s)
         else if hd s = CHR 0x22 then (case parse_quoted [] (tl s) of (r, rest) \<Rightarrow> (Some r, rest))
         else if hd s = CHR ''{'' then (None, s)
         else parse_atom s)"

text \<open>\<^verbatim>\<open>IMAPParser::quote_string\<close>.\<close>

definition quote_string :: "string \<Rightarrow> string" where
  "quote_string str =
     (if (\<forall>c \<in> set str. is_atom_char c) \<and> str \<noteq> [] then str
      else [CHR 0x22] @
           concat (map (\<lambda>c. if c = CHR 0x22 \<or> c = CHR 0x5C then [CHR 0x5C, c] else [c]) str) @
           [CHR 0x22])"

text \<open>Strings joined by single spaces.\<close>

fun join_sp :: "string list \<Rightarrow> string" where
  "join_sp [] = []"
| "join_sp [x] = x"
| "join_sp (x # y # rest) = x @ '' '' @ join_sp (y # rest)"

text \<open>
  \<^verbatim>\<open>IMAPParser::format_flags\<close>: a \<^verbatim>\<open>std::set<std::string>\<close> is iterated in
  ascending order.
\<close>

definition format_flags :: "string set \<Rightarrow> string" where
  "format_flags fl = ''('' @ join_sp (sorted_list_of_set fl) @ '')''"

text \<open>\<^verbatim>\<open>IMAPParser::parse_command\<close>; \<open>None\<close> is the result \<^verbatim>\<open>false\<close>.\<close>

definition parse_command :: "string \<Rightarrow> (string \<times> string \<times> string) option" where
  "parse_command line =
     (if line = [] then None
      else (case read_token line of (tag, rest1) \<Rightarrow>
        if tag = [] then None
        else (case read_token rest1 of (command, rest2) \<Rightarrow>
          if command = [] then None
          else Some (tag, map toupper command, getline_ws rest2))))"

section \<open>IMAP session and commands (imap\_session.cpp, imap\_commands.cpp)\<close>

datatype imap_CommandType = CT_CAPABILITY | CT_NOOP | CT_LOGOUT | CT_STARTTLS | CT_AUTHENTICATE
  | CT_LOGIN | CT_SELECT | CT_EXAMINE | CT_CREATE | CT_DELETE | CT_RENAME | CT_SUBSCRIBE
  | CT_UNSUBSCRIBE | CT_LIST | CT_LSUB | CT_STATUS | CT_APPEND | CT_CHECK | CT_CLOSE
  | CT_EXPUNGE | CT_SEARCH | CT_FETCH | CT_STORE | CT_COPY | CT_UID | CT_UNKNOWN

text \<open>\<^verbatim>\<open>struct Command\<close> of imap\_commands.hpp.\<close>

record imap_Command =
  imap_type :: imap_CommandType
  imap_tag :: string
  imap_name :: string
  imap_arguments :: string

text \<open>\<^verbatim>\<open>Command::string_to_type\<close>.\<close>

definition imap_string_to_type :: "string \<Rightarrow> imap_CommandType" where
  "imap_string_to_type name =
     (case map_of [(''CAPABILITY'', CT_CAPABILITY), (''NOOP'', CT_NOOP), (''LOGOUT'', CT_LOGOUT),
                   (''STARTTLS'', CT_STARTTLS), (''AUTHENTICATE'', CT_AUTHENTICATE),
                   (''LOGIN'', CT_LOGIN), (''SELECT'', CT_SELECT), (''EXAMINE'', CT_EXAMINE),
                   (''CREATE'', CT_CREATE), (''DELETE'', CT_DELETE), (''RENAME'', CT_RENAME),
                   (''SUBSCRIBE'', CT_SUBSCRIBE), (''UNSUBSCRIBE'', CT_UNSUBSCRIBE),
                   (''LIST'', CT_LIST), (''LSUB'', CT_LSUB), (''STATUS'', CT_STATUS),
                   (''APPEND'', CT_APPEND), (''CHECK'', CT_CHECK), (''CLOSE'', CT_CLOSE),
                   (''EXPUNGE'', CT_EXPUNGE), (''SEARCH'', CT_SEARCH), (''FETCH'', CT_FETCH),
                   (''STORE'', CT_STORE), (''COPY'', CT_COPY), (''UID'', CT_UID)] name of
        Some t \<Rightarrow> t | None \<Rightarrow> CT_UNKNOWN)"

text \<open>\<^verbatim>\<open>Command::parse\<close>.\<close>

definition imap_Command_parse :: "string \<Rightarrow> imap_Command" where
  "imap_Command_parse line =
     (case parse_command line of
        None \<Rightarrow> \<lparr>imap_type = CT_UNKNOWN, imap_tag = [], imap_name = [], imap_arguments = []\<rparr>
      | Some (tag, command, arguments) \<Rightarrow>
          \<lparr>imap_type = imap_string_to_type command, imap_tag = tag, imap_name = command,
           imap_arguments = arguments\<rparr>)"

text \<open>The response helpers of imap\_commands.hpp.\<close>

definition imap_ok :: "string \<Rightarrow> string \<Rightarrow> string" where
  "imap_ok tag msg = tag @ '' OK '' @ msg"

definition imap_no :: "string \<Rightarrow> string \<Rightarrow> string" where
  "imap_no tag msg = tag @ '' NO '' @ msg"

definition imap_bad :: "string \<Rightarrow> string \<Rightarrow> string" where
  "imap_bad tag msg = tag @ '' BAD '' @ msg"

definition untagged :: "string \<Rightarrow> string" where
  "untagged d = ''* '' @ d"

datatype imap_SessionState = NOT_AUTHENTICATED | AUTHENTICATED | SELECTED | LOGOUT

text \<open>\<^verbatim>\<open>struct SelectedMailbox\<close> and \<^verbatim>\<open>struct CachedMessage\<close>.\<close>

record SelectedMailbox =
  sel_name :: string
  read_only :: bool
  sel_uid_validity :: "32 word"
  sel_uid_next :: "32 word"
  sel_exists :: nat
  sel_recent :: nat
  sel_unseen :: nat
  sel_flags :: "string list"
  permanent_flags :: "string list"

record CachedMessage =
  sequence_number :: "32 word"
  uid :: "32 word"
  cm_unique_id :: string
  cm_size :: "64 word"
  cm_flags :: "string set"
  internal_date :: int

text \<open>
  \<^verbatim>\<open>class IMAPSession\<close>. \<open>store\<close> is the directory tree that \<^verbatim>\<open>maildir_\<close> works on and
  \<open>maildir_open\<close> tells whether \<^verbatim>\<open>maildir_\<close> is set; \<open>imap_ssl_context\<close> tells whether
  \<^verbatim>\<open>ssl_context_\<close> is set.
\<close>

record imap_session = Session +
  imap_state :: imap_SessionState
  store :: maildir_fs
  maildir_open :: bool
  selected :: "SelectedMailbox option"
  imap_messages :: "CachedMessage list"
  seq_to_uid :: "32 word \<rightharpoonup> 32 word"
  uid_to_seq :: "32 word \<rightharpoonup> 32 word"
  next_uid :: "32 word"
  imap_ssl_context :: bool

definition flag_Seen :: string where "flag_Seen = backslash # ''Seen''"
definition flag_Answered :: string where "flag_Answered = backslash # ''Answered''"
definition flag_Flagged :: string where "flag_Flagged = backslash # ''Flagged''"
definition flag_Deleted :: string where "flag_Deleted = backslash # ''Deleted''"
definition flag_Draft :: string where "flag_Draft = backslash # ''Draft''"
definition flag_Recent :: string where "flag_Recent = backslash # ''Recent''"

text \<open>\<^verbatim>\<open>IMAPSession::maildir_to_imap_flags\<close>.\<close>

definition maildir_to_imap_flags :: "char set \<Rightarrow> string set" where
  "maildir_to_imap_flags fl =
     (if CHR ''S'' \<in> fl then {flag_Seen} else {}) \<union>
     (if CHR ''R'' \<in> fl then {flag_Answered} else {}) \<union>
     (if CHR ''F'' \<in> fl then {flag_Flagged} else {}) \<union>
     (if CHR ''T'' \<in> fl then {flag_Deleted} else {}) \<union>
     (if CHR ''D'' \<in> fl then {flag_Draft} else {})"

text \<open>\<^verbatim>\<open>IMAPSession::update_mailbox_counts\<close>.\<close>

definition update_mailbox_counts :: "imap_session \<Rightarrow> imap_session" where
  "update_mailbox_counts s =
     (case selected s of
        None \<Rightarrow> s
      | Some sel \<Rightarrow>
          s\<lparr>selected := Some (sel\<lparr>
               sel_exists := length (imap_messages s),
               sel_recent := length (filter (\<lambda>m. flag_Recent \<in> cm_flags m) (imap_messages s)),
               sel_unseen := length (filter (\<lambda>m. flag_Seen \<notin> cm_flags m) (imap_messages s))\<rparr>)\<rparr>)"

text \<open>
  The body of the loop of \<^verbatim>\<open>IMAPSession::load_messages\<close>; the state of the loop is the
  session together with the local counter \<open>seq\<close>. \<^verbatim>\<open>next_uid_++\<close> and \<^verbatim>\<open>seq++\<close> are
  \<^verbatim>\<open>uint32_t\<close> increments.
\<close>

definition load_step :: "imap_session \<times> 32 word \<Rightarrow> Message \<Rightarrow> imap_session \<times> 32 word" where
  "load_step st msg =
     (case st of (s, seq) \<Rightarrow>
        let cached = \<lparr>sequence_number = seq, uid = next_uid s, cm_unique_id = unique_id msg,
                      cm_size = msg_bytes msg,
                      cm_flags = maildir_to_imap_flags (flags msg) \<union>
                                 (if is_new msg then {flag_Recent} else {}),
                      internal_date = timestamp msg\<rparr>
        in (s\<lparr>next_uid := next_uid s + 1,
               seq_to_uid := (seq_to_uid s)(seq \<mapsto> uid cached),
               uid_to_seq := (uid_to_seq s)(uid cached \<mapsto> seq),
               imap_messages := imap_messages s @ [cached]\<rparr>, seq + 1))"

text \<open>\<^verbatim>\<open>IMAPSession::load_messages\<close>.\<close>

definition load_messages :: "(Message list \<Rightarrow> Message list) \<Rightarrow> imap_session \<Rightarrow> imap_session" where
  "load_messages std_sort s =
     (let s1 = s\<lparr>imap_messages := [], seq_to_uid := Map.empty, uid_to_seq := Map.empty\<rparr>
      in case selected s1 of
           None \<Rightarrow> s1
         | Some sel \<Rightarrow>
             if \<not> maildir_open s1 then s1
             else update_mailbox_counts
                    (fst (foldl load_step (s1, 1)
                            (list_messages std_sort (store s1) (sel_name sel)))))"

text \<open>
  \<^verbatim>\<open>IMAPSession::select_mailbox\<close>; \<open>now\<close> is the clock reading that
  \<^verbatim>\<open>get_uid_validity\<close> may use.
\<close>

definition select_mailbox ::
  "(Message list \<Rightarrow> Message list) \<Rightarrow> 32 word \<Rightarrow> imap_session \<Rightarrow> string \<Rightarrow> bool \<Rightarrow>
   bool \<times> imap_session" where
  "select_mailbox std_sort now s name ro =
     (if \<not> maildir_open s then (False, s)
      else
        (let mailbox_name = (if name = [] then ''INBOX'' else name)
         in case get_mailbox_info std_sort now (store s) mailbox_name of
              (None, fs') \<Rightarrow> (False, s\<lparr>store := fs'\<rparr>)
            | (Some info, fs') \<Rightarrow>
                (let fl = [flag_Answered, flag_Flagged, flag_Deleted, flag_Seen, flag_Draft];
                     s1 = s\<lparr>store := fs',
                            selected := Some \<lparr>sel_name = mailbox_name, read_only = ro,
                              sel_uid_validity = uid_validity info, sel_uid_next = uid_next info,
                              sel_exists = total_messages_count info,
                              sel_recent = recent_messages info,
                              sel_unseen = unseen_messages info,
                              sel_flags = fl,
                              permanent_flags = fl @ [backslash # ''*'']\<rparr>\<rparr>
                 in (True, (load_messages std_sort s1)\<lparr>imap_state := SELECTED\<rparr>))))"

text \<open>\<^verbatim>\<open>IMAPSession::get_message_by_sequence\<close>.\<close>

definition get_message_by_sequence :: "imap_session \<Rightarrow> 32 word \<Rightarrow> CachedMessage option" where
  "get_message_by_sequence s seq =
     (if seq < 1 \<or> unat seq > length (imap_messages s) then None
      else Some (imap_messages s ! (unat seq - 1)))"

text \<open>\<^verbatim>\<open>IMAPSession::get_message_content\<close> and \<^verbatim>\<open>get_message_headers\<close>.\<close>

definition imap_get_message_content :: "imap_session \<Rightarrow> 32 word \<Rightarrow> cxx_exception + string option" where
  "imap_get_message_content s seq =
     (case (get_message_by_sequence s seq, selected s) of
        (Some msg, Some sel) \<Rightarrow>
          if \<not> maildir_open s then Inr None
          else get_message_content (store s) (cm_unique_id msg) (sel_name sel)
      | _ \<Rightarrow> Inr None)"

definition imap_get_message_headers :: "imap_session \<Rightarrow> 32 word \<Rightarrow> cxx_exception + string option" where
  "imap_get_message_headers s seq =
     (case (get_message_by_sequence s seq, selected s) of
        (Some msg, Some sel) \<Rightarrow>
          if \<not> maildir_open s then Inr None
          else get_message_headers (store s) (cm_unique_id msg) (sel_name sel)
      | _ \<Rightarrow> Inr None)"

text \<open>
  The second loop of \<^verbatim>\<open>IMAPSession::expunge\<close>: the indices collected in \<open>to_delete\<close> are
  visited from the last to the first; each visit unlinks the message and appends its
  sequence number to \<open>deleted_seqs\<close>. The argument is the reversed index list.
\<close>

fun expunge_loop ::
  "maildir_fs \<Rightarrow> string \<Rightarrow> CachedMessage list \<Rightarrow> nat list \<Rightarrow> cxx_exception + (32 word list \<times> maildir_fs)" where
  "expunge_loop fs name msgs [] = Inr ([], fs)"
| "expunge_loop fs name msgs (idx # rest) =
     (case delete_message fs (cm_unique_id (msgs ! idx)) name of
        Inl e \<Rightarrow> Inl e
      | Inr (ok, fs') \<Rightarrow>
          (case expunge_loop fs' name msgs rest of
             Inl e \<Rightarrow> Inl e
           | Inr (seqs, fs'') \<Rightarrow> Inr (of_nat (idx + 1) # seqs, fs'')))"

text \<open>\<^verbatim>\<open>IMAPSession::expunge\<close>.\<close>

definition expunge ::
  "(Message list \<Rightarrow> Message list) \<Rightarrow> imap_session \<Rightarrow>
   cxx_exception + (32 word list \<times> imap_session)" where
  "expunge std_sort s =
     (case selected s of
        None \<Rightarrow> Inr ([], s)
      | Some sel \<Rightarrow>
          if \<not> maildir_open s then Inr ([], s)
          else
            (let to_delete = filter (\<lambda>i. flag_Deleted \<in> cm_flags (imap_messages s ! i))
                               [0 ..< length (imap_messages s)]
             in case expunge_loop (store s) (sel_name sel) (imap_messages s) (rev to_delete) of
                  Inl e \<Rightarrow> Inl e
                | Inr (deleted_seqs, fs') \<Rightarrow>
                    Inr (rev deleted_seqs, load_messages std_sort (s\<lparr>store := fs'\<rparr>))))"

text \<open>
  What the command handlers take from outside the session: the clock, \<^verbatim>\<open>std::sort\<close> as
  \<^verbatim>\<open>list_messages\<close> uses it, the rendering of a time stamp by
  \<^verbatim>\<open>format_internal_date\<close> (which depends on the local time zone), the UID SEARCH
  branch of \<^verbatim>\<open>handle_uid\<close>, and the handlers of the command types that are not
  modelled here.
\<close>

record imap_env =
  env_now :: "32 word"
  env_std_sort :: "Message list \<Rightarrow> Message list"
  env_format_internal_date :: "int \<Rightarrow> string"
  env_uid_search :: "imap_session \<Rightarrow> imap_Command \<Rightarrow> string \<Rightarrow> cxx_exception + (string list \<times> imap_session)"
  env_other :: "imap_session \<Rightarrow> imap_Command \<Rightarrow> cxx_exception + (string list \<times> imap_session)"

text \<open>\<^verbatim>\<open>CommandHandler::handle_noop\<close>.\<close>

definition imap_handle_noop :: "imap_session \<Rightarrow> imap_Command \<Rightarrow> string list \<times> imap_session" where
  "imap_handle_noop s cmd = ([imap_ok (imap_tag cmd) ''NOOP completed''], s)"

text \<open>\<^verbatim>\<open>CommandHandler::handle_starttls\<close> in a build with TLS.\<close>

definition imap_handle_starttls :: "imap_session \<Rightarrow> imap_Command \<Rightarrow> string list \<times> imap_session" where
  "imap_handle_starttls s cmd =
     (if is_tls s then ([imap_bad (imap_tag cmd) ''Already using TLS''], s)
      else if imap_state s \<noteq> NOT_AUTHENTICATED
        then ([imap_bad (imap_tag cmd) ''STARTTLS only allowed before authentication''], s)
      else if \<not> imap_ssl_context s then ([imap_no (imap_tag cmd) ''TLS not configured''], s)
      else ([], start_tls (send_line (imap_ok (imap_tag cmd) ''Begin TLS negotiation'') s)))"

text \<open>The mailbox argument of SELECT, EXAMINE, CREATE and DELETE: quotes are removed.\<close>

definition mailbox_argument :: "string \<Rightarrow> string" where
  "mailbox_argument arguments =
     (if arguments \<noteq> [] \<and> hd arguments = CHR 0x22
      then (case fst (parse_string arguments) of Some parsed \<Rightarrow> parsed | None \<Rightarrow> arguments)
      else arguments)"

text \<open>\<^verbatim>\<open>CommandHandler::handle_select\<close>.\<close>

definition handle_select :: "imap_env \<Rightarrow> imap_session \<Rightarrow> imap_Command \<Rightarrow> string list \<times> imap_session" where
  "handle_select env s cmd =
     (if imap_state s \<noteq> AUTHENTICATED \<and> imap_state s \<noteq> SELECTED
      then ([imap_bad (imap_tag cmd) ''Not authenticated''], s)
      else
        (let mbox = mailbox_argument (imap_arguments cmd)
         in if mbox = [] then ([imap_bad (imap_tag cmd) ''Mailbox name required''], s)
            else (case select_mailbox (env_std_sort env) (env_now env) s mbox False of
                    (False, s') \<Rightarrow> ([imap_no (imap_tag cmd) ''Mailbox does not exist''], s')
                  | (True, s') \<Rightarrow>
                      (case selected s' of
                         None \<Rightarrow> ([imap_no (imap_tag cmd) ''Failed to select mailbox''], s')
                       | Some sel \<Rightarrow>
                           ([untagged (to_string (sel_exists sel) @ '' EXISTS''),
                             untagged (to_string (sel_recent sel) @ '' RECENT'')] @
                            (if sel_unseen sel > 0
                             then [untagged (''OK [UNSEEN '' @ to_string (sel_unseen sel) @ '']'')]
                             else []) @
                            [untagged (''OK [UIDVALIDITY '' @ to_string (unat (sel_uid_validity sel)) @ '']''),
                             untagged (''OK [UIDNEXT '' @ to_string (unat (sel_uid_next sel)) @ '']''),
                             untagged (''FLAGS ('' @ join_sp [flag_Answered, flag_Flagged, flag_Deleted,
                                         flag_Seen, flag_Draft] @ '')''),
                             untagged (''OK [PERMANENTFLAGS ('' @ join_sp [flag_Answered, flag_Flagged,
                                         flag_Deleted, flag_Seen, flag_Draft, backslash # ''*''] @ '')]''),
                             imap_ok (imap_tag cmd) ''[READ-WRITE] SELECT completed''], s')))))"

text \<open>
  \<^verbatim>\<open>CommandHandler::handle_examine\<close>. The pointer returned by
  \<^verbatim>\<open>selected_mailbox()\<close> is dereferenced without a test.
\<close>

definition handle_examine ::
  "imap_env \<Rightarrow> imap_session \<Rightarrow> imap_Command \<Rightarrow> cxx_exception + (string list \<times> imap_session)" where
  "handle_examine env s cmd =
     (if imap_state s \<noteq> AUTHENTICATED \<and> imap_state s \<noteq> SELECTED
      then Inr ([imap_bad (imap_tag cmd) ''Not authenticated''], s)
      else
        (case select_mailbox (env_std_sort env) (env_now env) s
                (mailbox_argument (imap_arguments cmd)) True of
           (False, s') \<Rightarrow> Inr ([imap_no (imap_tag cmd) ''Mailbox does not exist''], s')
         | (True, s') \<Rightarrow>
             (case selected s' of
                None \<Rightarrow> Inl null_dereference
              | Some sel \<Rightarrow>
                  Inr ([untagged (to_string (sel_exists sel) @ '' EXISTS''),
                        untagged (to_string (sel_recent sel) @ '' RECENT''),
                        untagged (''FLAGS ('' @ join_sp [flag_Answered, flag_Flagged, flag_Deleted,
                                    flag_Seen, flag_Draft] @ '')''),
                        imap_ok (imap_tag cmd) ''[READ-ONLY] EXAMINE completed''], s'))))"

text \<open>
  \<^verbatim>\<open>CommandHandler::handle_status\<close>. The pointer \<^verbatim>\<open>session.maildir()\<close> is
  dereferenced without a test.
\<close>

definition handle_status ::
  "imap_env \<Rightarrow> imap_session \<Rightarrow> imap_Command \<Rightarrow> cxx_exception + (string list \<times> imap_session)" where
  "handle_status env s cmd =
     (if imap_state s \<noteq> AUTHENTICATED \<and> imap_state s \<noteq> SELECTED
      then Inr ([imap_bad (imap_tag cmd) ''Not authenticated''], s)
      else (case fst (parse_string (imap_arguments cmd)) of
              None \<Rightarrow> Inr ([imap_bad (imap_tag cmd) ''Mailbox name required''], s)
            | Some mbox \<Rightarrow>
                if \<not> maildir_open s then Inl null_dereference
                else (case get_mailbox_info (env_std_sort env) (env_now env) (store s) mbox of
                        (None, fs') \<Rightarrow>
                          Inr ([imap_no (imap_tag cmd) ''Mailbox does not exist''], s\<lparr>store := fs'\<rparr>)
                      | (Some info, fs') \<Rightarrow>
                          Inr ([untagged (''STATUS '' @ quote_string mbox @ '' ('' @
                                  ''MESSAGES '' @ to_string (total_messages_count info) @ '' '' @
                                  ''RECENT '' @ to_string (recent_messages info) @ '' '' @
                                  ''UNSEEN '' @ to_string (unseen_messages info) @ '' '' @
                                  ''UIDVALIDITY '' @ to_string (unat (uid_validity info)) @ '' '' @
                                  ''UIDNEXT '' @ to_string (unat (uid_next info)) @ '')''),
                                imap_ok (imap_tag cmd) ''STATUS completed''], s\<lparr>store := fs'\<rparr>))))"

text \<open>\<^verbatim>\<open>CommandHandler::handle_expunge\<close>.\<close>

definition handle_expunge ::
  "imap_env \<Rightarrow> imap_session \<Rightarrow> imap_Command \<Rightarrow> cxx_exception + (string list \<times> imap_session)" where
  "handle_expunge env s cmd =
     (if imap_state s \<noteq> SELECTED then Inr ([imap_bad (imap_tag cmd) ''No mailbox selected''], s)
      else (case expunge (env_std_sort env) s of
              Inl e \<Rightarrow> Inl e
            | Inr (deleted_seqs, s') \<Rightarrow>
                Inr (map (\<lambda>seq. untagged (to_string (unat seq) @ '' EXPUNGE'')) deleted_seqs @
                     [imap_ok (imap_tag cmd) ''EXPUNGE completed''], s')))"

text \<open>
  The text one fetch item contributes to a FETCH response (the \<^verbatim>\<open>switch\<close> in
  \<^verbatim>\<open>handle_fetch\<close>). RFC822, BODY and BODY.PEEK share one case label.
\<close>

definition fetch_item_text ::
  "imap_env \<Rightarrow> imap_session \<Rightarrow> CachedMessage \<Rightarrow> FetchItem \<Rightarrow> cxx_exception + string" where
  "fetch_item_text env s msg item =
     (if fi_type item = FI_FLAGS then Inr (''FLAGS '' @ format_flags (cm_flags msg))
      else if fi_type item = FI_UID then Inr (''UID '' @ to_string (unat (uid msg)))
      else if fi_type item = FI_RFC822_SIZE then Inr (''RFC822.SIZE '' @ to_string (unat (cm_size msg)))
      else if fi_type item = FI_INTERNALDATE
        then Inr (''INTERNALDATE '' @ env_format_internal_date env (internal_date msg))
      else if fi_type item = FI_RFC822 \<or> fi_type item = FI_BODY \<or> fi_type item = FI_BODY_PEEK
        then (case imap_get_message_content s (sequence_number msg) of
                Inl e \<Rightarrow> Inl e
              | Inr None \<Rightarrow> Inr []
              | Inr (Some content) \<Rightarrow>
                  Inr (''BODY[] {'' @ to_string (length content) @ ''}'' @ CRLF @ content))
      else if fi_type item = FI_RFC822_HEADER
        then (case imap_get_message_headers s (sequence_number msg) of
                Inl e \<Rightarrow> Inl e
              | Inr None \<Rightarrow> Inr []
              | Inr (Some headers) \<Rightarrow>
                  Inr (''RFC822.HEADER {'' @ to_string (length headers) @ ''}'' @ CRLF @ headers))
      else Inr [])"

fun fetch_items_text ::
  "imap_env \<Rightarrow> imap_session \<Rightarrow> CachedMessage \<Rightarrow> FetchItem list \<Rightarrow> cxx_exception + string list" where
  "fetch_items_text env s msg [] = Inr []"
| "fetch_items_text env s msg (item # rest) =
     (case fetch_item_text env s msg item of
        Inl e \<Rightarrow> Inl e
      | Inr t \<Rightarrow> (case fetch_items_text env s msg rest of
                   Inl e \<Rightarrow> Inl e
                 | Inr ts \<Rightarrow> Inr (t # ts)))"

text \<open>The loop over \<^verbatim>\<open>session.messages()\<close> in \<^verbatim>\<open>handle_fetch\<close>.\<close>

fun fetch_loop ::
  "imap_env \<Rightarrow> imap_session \<Rightarrow> SeqRange list \<Rightarrow> FetchItem list \<Rightarrow> CachedMessage list \<Rightarrow>
   cxx_exception + string list" where
  "fetch_loop env s seq_set items [] = Inr []"
| "fetch_loop env s seq_set items (msg # rest) =
     (if \<not> contains seq_set (sequence_number msg) then fetch_loop env s seq_set items rest
      else (case fetch_items_text env s msg items of
              Inl e \<Rightarrow> Inl e
            | Inr ts \<Rightarrow>
                (case fetch_loop env s seq_set items rest of
                   Inl e \<Rightarrow> Inl e
                 | Inr rs \<Rightarrow>
                     Inr (untagged (to_string (unat (sequence_number msg)) @ '' FETCH ('' @
                                    join_sp ts @ '')'') # rs))))"

text \<open>
  \<^verbatim>\<open>CommandHandler::handle_fetch\<close>. The handler calls no mutating member of the session
  or of the maildir, so the session it returns is the one it was given.
\<close>

definition handle_fetch ::
  "imap_env \<Rightarrow> imap_session \<Rightarrow> imap_Command \<Rightarrow> cxx_exception + (string list \<times> imap_session)" where
  "handle_fetch env s cmd =
     (if imap_state s \<noteq> SELECTED then Inr ([imap_bad (imap_tag cmd) ''No mailbox selected''], s)
      else (case read_token (imap_arguments cmd) of (seq_str, rest) \<Rightarrow>
        let items_str = getline_ws rest
        in case parse_sequence_set seq_str of
             Inl e \<Rightarrow> Inl e
           | Inr None \<Rightarrow> Inr ([imap_bad (imap_tag cmd) ''Invalid sequence set''], s)
           | Inr (Some seq_set) \<Rightarrow>
               (case fetch_loop env s seq_set (parse_fetch_items items_str) (imap_messages s) of
                  Inl e \<Rightarrow> Inl e
                | Inr responses \<Rightarrow>
                    Inr (responses @ [imap_ok (imap_tag cmd) ''FETCH completed''], s))))"

text \<open>
  \<^verbatim>\<open>CommandHandler::execute\<close> for every type except UID: the handlers modelled above,
  the answer for the three types without a registered handler, and \<open>env_other\<close> for the
  rest.
\<close>

definition execute_base ::
  "imap_env \<Rightarrow> imap_session \<Rightarrow> imap_Command \<Rightarrow> cxx_exception + (string list \<times> imap_session)" where
  "execute_base env s cmd =
     (if imap_type cmd = CT_NOOP then Inr (imap_handle_noop s cmd)
      else if imap_type cmd = CT_STARTTLS then Inr (imap_handle_starttls s cmd)
      else if imap_type cmd = CT_SELECT then Inr (handle_select env s cmd)
      else if imap_type cmd = CT_EXAMINE then handle_examine env s cmd
      else if imap_type cmd = CT_STATUS then handle_status env s cmd
      else if imap_type cmd = CT_EXPUNGE then handle_expunge env s cmd
      else if imap_type cmd = CT_FETCH then handle_fetch env s cmd
      else if imap_type cmd \<in> {CT_AUTHENTICATE, CT_SUBSCRIBE, CT_UNSUBSCRIBE, CT_UNKNOWN}
        then Inr ([imap_bad (imap_tag cmd) ''Unknown command''], s)
      else env_other env s cmd)"

text \<open>
  \<^verbatim>\<open>CommandHandler::handle_uid\<close>. For FETCH, STORE and COPY the wrapped command, with
  the arguments as the client sent them, goes to the handler of the plain command.
\<close>

definition handle_uid ::
  "imap_env \<Rightarrow> imap_session \<Rightarrow> imap_Command \<Rightarrow> cxx_exception + (string list \<times> imap_session)" where
  "handle_uid env s cmd =
     (if imap_state s \<noteq> SELECTED then Inr ([imap_bad (imap_tag cmd) ''No mailbox selected''], s)
      else (case read_token (imap_arguments cmd) of (sub_cmd0, rest) \<Rightarrow>
        let sub_args = getline_ws rest;
            sub_cmd = map toupper sub_cmd0;
            wrapped_cmd = \<lparr>imap_type = imap_string_to_type sub_cmd, imap_tag = imap_tag cmd,
                           imap_name = sub_cmd, imap_arguments = sub_args\<rparr>
        in if sub_cmd = ''SEARCH'' then env_uid_search env s cmd sub_args
           else if sub_cmd = ''FETCH'' \<or> sub_cmd = ''STORE'' \<or> sub_cmd = ''COPY''
             then execute_base env s wrapped_cmd
           else Inr ([imap_bad (imap_tag cmd) ''Unknown UID command''], s)))"

text \<open>\<^verbatim>\<open>CommandHandler::execute\<close>.\<close>

definition execute ::
  "imap_env \<Rightarrow> imap_session \<Rightarrow> imap_Command \<Rightarrow> cxx_exception + (string list \<times> imap_session)" where
  "execute env s cmd =
     (if imap_type cmd = CT_UID then handle_uid env s cmd else execute_base env s cmd)"

text \<open>\<^verbatim>\<open>IMAPSession::process_command\<close>, which is \<^verbatim>\<open>on_data\<close> for IMAP.\<close>

definition imap_process_command :: "imap_env \<Rightarrow> string \<Rightarrow> imap_session \<Rightarrow> cxx_exception + imap_session" where
  "imap_process_command env line s =
     (let cmd = imap_Command_parse line in
      if imap_type cmd = CT_UNKNOWN
      then Inr (send_line (imap_bad (if imap_tag cmd = [] then ''*'' else imap_tag cmd)
                                    ''Unknown command'') s)
      else (case execute env s cmd of
              Inl e \<Rightarrow> Inl e
            | Inr (responses, s') \<Rightarrow>
                (let s'' = foldl (\<lambda>t r. send_line r t) s' responses
                 in Inr (if imap_type cmd = CT_LOGOUT then stop s'' else s''))))"

text \<open>An authenticated IMAP session on a store whose INBOX has no \<^verbatim>\<open>.uidvalidity\<close> file.\<close>

definition c10_session :: imap_session where
  "c10_session = \<lparr>read_buffer = [], is_tls = False, stopped = False, sent = [], handshakes = 0,
     imap_state = AUTHENTICATED, store = fresh_fs, maildir_open = True, selected = None,
     imap_messages = [], seq_to_uid = Map.empty, uid_to_seq = Map.empty, next_uid = 1,
     imap_ssl_context = True\<rparr>"


text \<open>
  A store whose INBOX holds two messages without flags, an environment, and the session
  after the mailbox has been selected twice on one connection: the second load numbers the
  messages 1 and 2 again and gives them the UIDs 3 and 4. The time stamps of the example
  mailboxes are distinct, so that every \<^verbatim>\<open>std::sort\<close> orders them as the insertion sort
  \<open>sort_key timestamp\<close> of the examples does.
\<close>

definition c4_dir :: mailbox_dir where
  "c4_dir = \<lparr>cur_dir = [\<lparr>fname = ''m1'', fsize = 5, mtime = 1, fdata = ''hello''\<rparr>,
                          \<lparr>fname = ''m2'', fsize = 3, mtime = 2, fdata = ''bye''\<rparr>],
              new_dir = [], uidvalidity_file = Some [7, 1]\<rparr>"

definition c4_fs :: maildir_fs where
  "c4_fs = (\<lambda>p. if p = [] then Some c4_dir else None)"

definition c4_env :: imap_env where
  "c4_env = \<lparr>env_now = 1000, env_std_sort = sort_key timestamp,
             env_format_internal_date = (\<lambda>t. []),
             env_uid_search = (\<lambda>s c a. Inr ([], s)), env_other = (\<lambda>s c. Inr ([], s))\<rparr>"

definition c4_start :: imap_session where
  "c4_start = \<lparr>read_buffer = [], is_tls = False, stopped = False, sent = [], handshakes = 0,
     imap_state = AUTHENTICATED, store = c4_fs, maildir_open = True, selected = None,
     imap_messages = [], seq_to_uid = Map.empty, uid_to_seq = Map.empty, next_uid = 1,
     imap_ssl_context = True\<rparr>"

definition c4_session :: imap_session where
  "c4_session = snd (select_mailbox (sort_key timestamp) 1001
                       (snd (select_mailbox (sort_key timestamp) 1000 c4_start ''INBOX'' False))
                       ''INBOX'' False)"

text \<open>The session after the first selection, for FETCH on a message that is not yet seen.\<close>

definition c3_session :: imap_session where
  "c3_session = snd (select_mailbox (sort_key timestamp) 1000 c4_start ''INBOX'' False)"


text \<open>
  Sessions of the three protocols before authentication, each with a STARTTLS or STLS line
  and a pipelined NOOP line in the input buffer.
\<close>

definition c1_session :: imap_session where
  "c1_session = \<lparr>read_buffer = ''a STARTTLS'' @ CRLF @ ''b NOOP'' @ CRLF, is_tls = False,
     stopped = False, sent = [], handshakes = 0,
     imap_state = NOT_AUTHENTICATED, store = (\<lambda>p. None), maildir_open = False, selected = None,
     imap_messages = [], seq_to_uid = Map.empty, uid_to_seq = Map.empty, next_uid = 1,
     imap_ssl_context = True\<rparr>"

definition c1_smtp_session :: smtp_session where
  "c1_smtp_session = \<lparr>read_buffer = ''STARTTLS'' @ CRLF @ ''NOOP'' @ CRLF, is_tls = False,
     stopped = False, sent = [], handshakes = 0,
     smtp_state = GREETED, auth_state = AUTH_NONE,
     envelope = \<lparr>mail_from = [], rcpt_to = [], env_data = []\<rparr>,
     data_buffer = [], max_message_size = 100,
     smtp_starttls_available = True, smtp_ssl_context = True, smtp_deliveries = []\<rparr>"

definition c1_pop3_session :: pop3_session where
  "c1_pop3_session = \<lparr>read_buffer = ''STLS'' @ CRLF @ ''NOOP'' @ CRLF, is_tls = False,
     stopped = False, sent = [], handshakes = 0,
     pop3_state = AUTHORIZATION, pop3_messages = [], deleted_messages = {},
     pop3_starttls_available = True, pop3_ssl_context = True\<rparr>"

text \<open>
  Vocabulary for statements about EXPUNGE. \<open>file_unique_id\<close> is the unique id that
  \<^verbatim>\<open>parse_message_file\<close> gives a directory entry; \<open>remove_ids R d\<close> is the mailbox directory
  \<open>d\<close> without the entries whose unique id is in \<open>R\<close>; \<open>maildir_names_ok d\<close> says that the
  file names of the mailbox are distinct and that no file name starts with the unique id of
  another entry, so that the prefix search of \<^verbatim>\<open>get_message\<close> finds the entry that was
  meant.
\<close>

definition file_unique_id :: "file_entry \<Rightarrow> string" where
  "file_unique_id f = unique_id (parse_message_file False [] f)"

definition remove_ids :: "string set \<Rightarrow> mailbox_dir \<Rightarrow> mailbox_dir" where
  "remove_ids R d = d\<lparr>cur_dir := filter (\<lambda>f. file_unique_id f \<notin> R) (cur_dir d),
                       new_dir := filter (\<lambda>f. file_unique_id f \<notin> R) (new_dir d)\<rparr>"

definition maildir_names_ok :: "mailbox_dir \<Rightarrow> bool" where
  "maildir_names_ok d =
     (distinct (map fname (cur_dir d @ new_dir d)) \<and>
      (\<forall>f \<in> set (cur_dir d @ new_dir d). \<forall>g \<in> set (cur_dir d @ new_dir d).
         starts_with (fname g) (file_unique_id f) \<longrightarrow> g = f))"

text \<open>
  A store whose INBOX holds three messages, the first and the third flagged \<open>T\<close> (trashed),
  and the session that has selected it: the messages have the sequence numbers and the UIDs
  1, 2, 3.
\<close>

definition c2_dir :: mailbox_dir where
  "c2_dir = \<lparr>cur_dir = [\<lparr>fname = ''m1:2,T'', fsize = 5, mtime = 1, fdata = ''hello''\<rparr>,
                          \<lparr>fname = ''m2:2,S'', fsize = 3, mtime = 2, fdata = ''bye''\<rparr>,
                          \<lparr>fname = ''m3:2,T'', fsize = 2, mtime = 3, fdata = ''ok''\<rparr>],
              new_dir = [], uidvalidity_file = Some [7, 1]\<rparr>"

definition c2_fs :: maildir_fs where
  "c2_fs = (\<lambda>p. if p = [] then Some c2_dir else None)"

definition c2_session :: imap_session where
  "c2_session = snd (select_mailbox (sort_key timestamp) 1000 (c4_start\<lparr>store := c2_fs\<rparr>)
                       ''INBOX'' False)"

section \<open>Theorems\<close>






subsection \<open>SMTP address parsing\<close>

lemma split_first_at:
  assumes "c \<in> set s"
  shows "s = takeWhile (\<lambda>x. x \<noteq> c) s @ c # tl (dropWhile (\<lambda>x. x \<noteq> c) s)"
proof -
  from assms have "dropWhile (\<lambda>x. x \<noteq> c) s \<noteq> []" by simp
  moreover have "hd (dropWhile (\<lambda>x. x \<noteq> c) s) = c"
    using assms hd_dropWhile [of "\<lambda>x. x \<noteq> c" s] by auto
  ultimately have "dropWhile (\<lambda>x. x \<noteq> c) s = c # tl (dropWhile (\<lambda>x. x \<noteq> c) s)"
    by (cases "dropWhile (\<lambda>x. x \<noteq> c) s") auto
  then show ?thesis
    using takeWhile_dropWhile_id [of "\<lambda>x. x \<noteq> c" s] by metis
qed

lemma first_at_unique:
  assumes "s = l @ c # d" "c \<notin> set l"
  shows "takeWhile (\<lambda>x. x \<noteq> c) s = l" "tl (dropWhile (\<lambda>x. x \<noteq> c) s) = d"
  using assms by (induction l arbitrary: s) auto

lemma parse_after_trim:
  "EmailAddress_parse str =
     (let email = trim_ws (extract_brackets str) in
      if email = [] then Some \<lparr>local_part = [], domain = [], full_address = []\<rparr>
      else if CHR ''@'' \<in> set email \<and> takeWhile (\<lambda>x. x \<noteq> CHR ''@'') email \<noteq> [] \<and>
              tl (dropWhile (\<lambda>x. x \<noteq> CHR ''@'') email) \<noteq> []
      then Some \<lparr>local_part = takeWhile (\<lambda>x. x \<noteq> CHR ''@'') email,
                  domain = tl (dropWhile (\<lambda>x. x \<noteq> CHR ''@'') email),
                  full_address = email\<rparr>
      else None)"
proof -
  define email where "email = trim_ws (extract_brackets str)"
  define l where "l = takeWhile (\<lambda>x. x \<noteq> CHR ''@'') email"
  define d where "d = tl (dropWhile (\<lambda>x. x \<noteq> CHR ''@'') email)"
  show ?thesis
  proof (cases "CHR ''@'' \<in> set email")
    case False
    then show ?thesis
      by (simp add: EmailAddress_parse_def Let_def str_find_def email_def [symmetric])
  next
    case True
    then have e: "email = l @ CHR ''@'' # d"
      unfolding l_def d_def by (rule split_first_at)
    have len: "length email = length l + 1 + length d" by (subst e) simp
    have dr: "drop (Suc (length l)) email = d" by (subst e) simp
    have tk: "take (length l) email = l" by (subst e) simp
    have ne: "email \<noteq> []" using True by auto
    have a: "str_find CHR ''@'' email = Some (length l)"
      using True by (simp add: str_find_def l_def)
    show ?thesis
      using ne True len dr tk
      by (auto simp add: EmailAddress_parse_def Let_def a email_def [symmetric] l_def [symmetric]
          d_def [symmetric] substr_def substr_from_def)
  qed
qed

lemmas parse_eval_defs = EmailAddress_parse_def trim_ws_def extract_brackets_def str_find_def
  find_first_not_of_def find_last_not_of_def substr_def substr_from_def

text \<open>
  C6 as stated fails: an address with two \<open>@\<close> characters parses successfully; the text
  after the first \<open>@\<close>, second \<open>@\<close> included, becomes the domain.
\<close>

theorem C6_counterexample:
  "trim_ws (extract_brackets ''a@b@c'') = ''a@b@c'' \<and>
   count_list ''a@b@c'' CHR ''@'' = 2 \<and>
   EmailAddress_parse ''a@b@c'' =
     Some \<lparr>local_part = ''a'', domain = ''b@c'', full_address = ''a@b@c''\<rparr>"
  by (simp add: parse_eval_defs)

lemma str_find_first:
  assumes "c \<notin> set a"
  shows "str_find c (a @ c # r) = Some (length a)"
  using assms first_at_unique(1) [of "a @ c # r" a c r] by (simp add: str_find_def)

lemma str_find_later:
  assumes "c \<notin> set a" and "c \<noteq> x" and "str_find c (a @ x # r) = Some p"
  shows "length a < p"
proof -
  have "takeWhile (\<lambda>y. y \<noteq> c) (a @ x # r) = a @ x # takeWhile (\<lambda>y. y \<noteq> c) r"
    using assms(1,2) by (induction a) auto
  with assms(3) show ?thesis by (auto simp: str_find_def split: if_splits)
qed

lemma extract_brackets_between:
  assumes "CHR ''<'' \<notin> set a" and "CHR ''>'' \<notin> set a" and "CHR ''>'' \<notin> set b"
  shows "extract_brackets (a @ CHR ''<'' # b @ CHR ''>'' # c) = b"
proof -
  have s: "str_find CHR ''<'' (a @ CHR ''<'' # b @ CHR ''>'' # c) = Some (length a)"
    using assms(1) by (rule str_find_first)
  have "CHR ''>'' \<notin> set (a @ CHR ''<'' # b)" using assms(2,3) by simp
  from str_find_first [OF this, of c]
  have e: "str_find CHR ''>'' (a @ CHR ''<'' # b @ CHR ''>'' # c) = Some (length a + 1 + length b)"
    by simp
  show ?thesis by (simp add: extract_brackets_def s e substr_def)
qed

lemma extract_brackets_close_first:
  assumes "CHR ''<'' \<notin> set a" and "CHR ''>'' \<notin> set a"
  shows "extract_brackets (a @ CHR ''>'' # c) = a @ CHR ''>'' # c"
proof -
  have e: "str_find CHR ''>'' (a @ CHR ''>'' # c) = Some (length a)"
    using assms(2) by (rule str_find_first)
  show ?thesis
  proof (cases "str_find CHR ''<'' (a @ CHR ''>'' # c)")
    case None
    then show ?thesis by (simp add: extract_brackets_def)
  next
    case (Some p)
    from str_find_later [OF assms(1) _ Some] have "length a < p" by simp
    then show ?thesis by (simp add: extract_brackets_def Some e)
  qed
qed

lemma extract_brackets_absent:
  "CHR ''<'' \<notin> set str \<or> CHR ''>'' \<notin> set str \<Longrightarrow> extract_brackets str = str"
  by (auto simp: extract_brackets_def str_find_def)

lemma trim_ws_blank:
  "set e \<subseteq> {CHR '' '', CHR 0x09} \<Longrightarrow> trim_ws e = e"
  by (auto simp: trim_ws_def find_first_not_of_def find_last_not_of_def)

lemma trim_ws_middle:
  assumes w1: "set w1 \<subseteq> {CHR '' '', CHR 0x09}" and w2: "set w2 \<subseteq> {CHR '' '', CHR 0x09}"
    and m: "m \<noteq> []" "hd m \<notin> {CHR '' '', CHR 0x09}" "last m \<notin> {CHR '' '', CHR 0x09}"
  shows "trim_ws (w1 @ m @ w2) = m"
proof -
  let ?W = "\<lambda>x. x \<in> set [CHR '' '', CHR 0x09]"
  obtain h t where ht: "m = h # t" using m(1) by (cases m) auto
  have hW: "\<not> ?W h" using m(2) ht by simp
  have lW: "\<not> ?W (last m)" using m(3) by simp
  have a1: "\<forall>x \<in> set w1. ?W x" and a2: "\<forall>x \<in> set (rev w2). ?W x" using w1 w2 by auto
  have ex: "\<exists>x \<in> set (w1 @ m @ w2). x \<notin> set [CHR '' '', CHR 0x09]"
    using hW ht by auto
  have f: "takeWhile ?W (w1 @ m @ w2) = w1"
    using a1 hW ht by (simp add: takeWhile_append2)
  define bl where "bl = butlast m"
  have rm: "rev m = last m # rev bl"
    using m(1) arg_cong [OF append_butlast_last_id [of m], of rev] by (simp add: bl_def)
  have "takeWhile ?W (rev w2 @ (last m # rev bl) @ rev w1) = rev w2"
    using a2 lW by (simp add: takeWhile_tail takeWhile_eq_all_conv)
  then have "takeWhile ?W (rev w2 @ rev m @ rev w1) = rev w2"
    by (simp only: rm)
  then have l: "takeWhile ?W (rev (w1 @ m @ w2)) = rev w2" by simp
  have ff: "find_first_not_of [CHR '' '', CHR 0x09] (w1 @ m @ w2) = Some (length w1)"
    using ex by (simp only: find_first_not_of_def f if_True)
  have fl: "find_last_not_of [CHR '' '', CHR 0x09] (w1 @ m @ w2) =
      Some (length (w1 @ m @ w2) - 1 - length w2)"
    using ex by (simp only: find_last_not_of_def l if_True length_rev)
  have "length (w1 @ m @ w2) - 1 - length w2 - length w1 + 1 = length m"
    using ht by simp
  then show ?thesis
    by (simp only: trim_ws_def ff fl prod.case option.case substr_def) simp
qed

text \<open>
  C6 (amended). Let \<open>email\<close> be the input after the two preparatory steps of the code. The
  first step takes the text strictly between the first \<open><\<close> and the first \<open>>\<close> of the whole
  string when both occur and that \<open>>\<close> comes after that \<open><\<close>; when a bracket is missing,
  or the first \<open>>\<close> comes before the first \<open><\<close>, the string is left as it is, brackets
  included. The second step removes leading and trailing spaces and tabs; a string of
  spaces and tabs only is left as it is. The empty \<open>email\<close> yields the null sender. Any
  other input parses successfully exactly when \<open>email\<close> has an \<open>@\<close> whose first occurrence
  is neither its first nor its last character; the local part is the text before that
  first \<open>@\<close> and the domain is everything after it. In particular \<open><>\<close> is the null sender,
  \<open><user@>\<close> and \<open><@dom>\<close> fail, and \<open>a>b<c@d>\<close> parses with the local part \<open>a>b<c\<close>
  and the domain \<open>d>\<close>.
\<close>

theorem C6_parse_amended:
  "(let email = trim_ws (extract_brackets str) in
      (email = [] \<longrightarrow>
         EmailAddress_parse str = Some \<lparr>local_part = [], domain = [], full_address = []\<rparr>) \<and>
      (email \<noteq> [] \<longrightarrow>
         (EmailAddress_parse str \<noteq> None \<longleftrightarrow>
            (\<exists>l d. email = l @ CHR ''@'' # d \<and> l \<noteq> [] \<and> d \<noteq> [] \<and> CHR ''@'' \<notin> set l))) \<and>
      (\<forall>l d. email = l @ CHR ''@'' # d \<and> l \<noteq> [] \<and> d \<noteq> [] \<and> CHR ''@'' \<notin> set l \<longrightarrow>
         EmailAddress_parse str = Some \<lparr>local_part = l, domain = d, full_address = email\<rparr>)) \<and>
   EmailAddress_parse ''<>'' = Some \<lparr>local_part = [], domain = [], full_address = []\<rparr> \<and>
   EmailAddress_parse ''<user@>'' = None \<and>
   EmailAddress_parse ''<@dom>'' = None \<and>
   (\<forall>a b c. CHR ''<'' \<notin> set a \<and> CHR ''>'' \<notin> set a \<and> CHR ''>'' \<notin> set b \<longrightarrow>
      extract_brackets (a @ CHR ''<'' # b @ CHR ''>'' # c) = b) \<and>
   (\<forall>a c. CHR ''<'' \<notin> set a \<and> CHR ''>'' \<notin> set a \<longrightarrow>
      extract_brackets (a @ CHR ''>'' # c) = a @ CHR ''>'' # c) \<and>
   (CHR ''<'' \<notin> set str \<or> CHR ''>'' \<notin> set str \<longrightarrow> extract_brackets str = str) \<and>
   (\<forall>e. set e \<subseteq> {CHR '' '', CHR 0x09} \<longrightarrow> trim_ws e = e) \<and>
   (\<forall>w1 m w2. set w1 \<subseteq> {CHR '' '', CHR 0x09} \<and> set w2 \<subseteq> {CHR '' '', CHR 0x09} \<and> m \<noteq> [] \<and>
      hd m \<notin> {CHR '' '', CHR 0x09} \<and> last m \<notin> {CHR '' '', CHR 0x09} \<longrightarrow>
      trim_ws (w1 @ m @ w2) = m) \<and>
   EmailAddress_parse ''a>b<c@d>'' =
     Some \<lparr>local_part = ''a>b<c'', domain = ''d>'', full_address = ''a>b<c@d>''\<rparr>"
proof -
  define email where "email = trim_ws (extract_brackets str)"
  have p: "EmailAddress_parse str =
      (if email = [] then Some \<lparr>local_part = [], domain = [], full_address = []\<rparr>
       else if CHR ''@'' \<in> set email \<and> takeWhile (\<lambda>x. x \<noteq> CHR ''@'') email \<noteq> [] \<and>
              tl (dropWhile (\<lambda>x. x \<noteq> CHR ''@'') email) \<noteq> []
       then Some \<lparr>local_part = takeWhile (\<lambda>x. x \<noteq> CHR ''@'') email,
                  domain = tl (dropWhile (\<lambda>x. x \<noteq> CHR ''@'') email),
                  full_address = email\<rparr>
       else None)"
    unfolding email_def parse_after_trim [of str] Let_def ..
  have a: "email = [] \<longrightarrow>
      EmailAddress_parse str = Some \<lparr>local_part = [], domain = [], full_address = []\<rparr>"
    by (simp add: p)
  have c: "EmailAddress_parse str = Some \<lparr>local_part = l, domain = d, full_address = email\<rparr>"
    if "email = l @ CHR ''@'' # d" "l \<noteq> []" "d \<noteq> []" "CHR ''@'' \<notin> set l" for l d
  proof -
    have "takeWhile (\<lambda>x. x \<noteq> CHR ''@'') email = l" "tl (dropWhile (\<lambda>x. x \<noteq> CHR ''@'') email) = d"
      using first_at_unique [OF that(1) that(4)] by simp_all
    moreover have "CHR ''@'' \<in> set email" "email \<noteq> []" using that(1) by simp_all
    ultimately show ?thesis using that(2,3) by (simp add: p)
  qed
  have b: "EmailAddress_parse str \<noteq> None \<longleftrightarrow>
      (\<exists>l d. email = l @ CHR ''@'' # d \<and> l \<noteq> [] \<and> d \<noteq> [] \<and> CHR ''@'' \<notin> set l)"
    if ne: "email \<noteq> []"
  proof
    assume "EmailAddress_parse str \<noteq> None"
    with ne p have h: "CHR ''@'' \<in> set email" "takeWhile (\<lambda>x. x \<noteq> CHR ''@'') email \<noteq> []"
      "tl (dropWhile (\<lambda>x. x \<noteq> CHR ''@'') email) \<noteq> []"
      by (auto split: if_splits)
    have "CHR ''@'' \<notin> set (takeWhile (\<lambda>x. x \<noteq> CHR ''@'') email)"
      by (auto dest: set_takeWhileD)
    with split_first_at [OF h(1)] h(2,3)
    show "\<exists>l d. email = l @ CHR ''@'' # d \<and> l \<noteq> [] \<and> d \<noteq> [] \<and> CHR ''@'' \<notin> set l"
      by blast
  next
    assume "\<exists>l d. email = l @ CHR ''@'' # d \<and> l \<noteq> [] \<and> d \<noteq> [] \<and> CHR ''@'' \<notin> set l"
    then show "EmailAddress_parse str \<noteq> None" using c by auto
  qed
  have d: "EmailAddress_parse ''<>'' = Some \<lparr>local_part = [], domain = [], full_address = []\<rparr>"
    "EmailAddress_parse ''<user@>'' = None" "EmailAddress_parse ''<@dom>'' = None"
    by (simp_all add: parse_eval_defs)
  have e: "EmailAddress_parse ''a>b<c@d>'' =
     Some \<lparr>local_part = ''a>b<c'', domain = ''d>'', full_address = ''a>b<c@d>''\<rparr>"
    by (simp add: parse_eval_defs)
  have x1: "\<forall>a b c. CHR ''<'' \<notin> set a \<and> CHR ''>'' \<notin> set a \<and> CHR ''>'' \<notin> set b \<longrightarrow>
      extract_brackets (a @ CHR ''<'' # b @ CHR ''>'' # c) = b"
    using extract_brackets_between by blast
  have x2: "\<forall>a c. CHR ''<'' \<notin> set a \<and> CHR ''>'' \<notin> set a \<longrightarrow>
      extract_brackets (a @ CHR ''>'' # c) = a @ CHR ''>'' # c"
    using extract_brackets_close_first by blast
  have x3: "CHR ''<'' \<notin> set str \<or> CHR ''>'' \<notin> set str \<longrightarrow> extract_brackets str = str"
    using extract_brackets_absent by blast
  have t1: "\<forall>e. set e \<subseteq> {CHR '' '', CHR 0x09} \<longrightarrow> trim_ws e = e"
    using trim_ws_blank by blast
  have t2: "\<forall>w1 m w2. set w1 \<subseteq> {CHR '' '', CHR 0x09} \<and> set w2 \<subseteq> {CHR '' '', CHR 0x09} \<and> m \<noteq> [] \<and>
      hd m \<notin> {CHR '' '', CHR 0x09} \<and> last m \<notin> {CHR '' '', CHR 0x09} \<longrightarrow>
      trim_ws (w1 @ m @ w2) = m"
    using trim_ws_middle by blast
  have main: "(email = [] \<longrightarrow>
         EmailAddress_parse str = Some \<lparr>local_part = [], domain = [], full_address = []\<rparr>) \<and>
      (email \<noteq> [] \<longrightarrow>
         (EmailAddress_parse str \<noteq> None \<longleftrightarrow>
            (\<exists>l d. email = l @ CHR ''@'' # d \<and> l \<noteq> [] \<and> d \<noteq> [] \<and> CHR ''@'' \<notin> set l))) \<and>
      (\<forall>l d. email = l @ CHR ''@'' # d \<and> l \<noteq> [] \<and> d \<noteq> [] \<and> CHR ''@'' \<notin> set l \<longrightarrow>
         EmailAddress_parse str = Some \<lparr>local_part = l, domain = d, full_address = email\<rparr>)"
    using a b c by blast
  show ?thesis
    unfolding Let_def email_def [symmetric]
    by (intro conjI main [THEN conjunct1] main [THEN conjunct2, THEN conjunct1]
        main [THEN conjunct2, THEN conjunct2] d e x1 x2 x3 t1 t2)
qed

theorem C6_parse_amended_witness:
  "extract_brackets (''  '' @ CHR ''<'' # ''a@b@c'' @ CHR ''>'' # '' '') = ''a@b@c'' \<and>
   trim_ws ('' '' @ ''a@b@c'' @ [CHR 0x09]) = ''a@b@c'' \<and>
   trim_ws (extract_brackets ''  <a@b@c> '') = ''a'' @ CHR ''@'' # ''b@c'' \<and>
   EmailAddress_parse ''  <a@b@c> '' =
     Some \<lparr>local_part = ''a'', domain = ''b@c'', full_address = ''a@b@c''\<rparr> \<and>
   trim_ws (extract_brackets ''<>'') = [] \<and>
   EmailAddress_parse ''<>'' = Some \<lparr>local_part = [], domain = [], full_address = []\<rparr>"
proof -
  have e: "trim_ws (extract_brackets ''  <a@b@c> '') = ''a@b@c''"
    by (simp add: parse_eval_defs)
  have "\<forall>l d. ''a@b@c'' = l @ CHR ''@'' # d \<and> l \<noteq> [] \<and> d \<noteq> [] \<and> CHR ''@'' \<notin> set l \<longrightarrow>
         EmailAddress_parse ''  <a@b@c> '' = Some \<lparr>local_part = l, domain = d, full_address = ''a@b@c''\<rparr>"
    using C6_parse_amended [of "''  <a@b@c> ''"] unfolding Let_def e by (rule conjunct1 [THEN conjunct2, THEN conjunct2])
  then have "''a@b@c'' = ''a'' @ CHR ''@'' # ''b@c'' \<and> ''a'' \<noteq> [] \<and> ''b@c'' \<noteq> [] \<and> CHR ''@'' \<notin> set ''a'' \<longrightarrow>
         EmailAddress_parse ''  <a@b@c> '' = Some \<lparr>local_part = ''a'', domain = ''b@c'', full_address = ''a@b@c''\<rparr>"
    by blast
  then have "EmailAddress_parse ''  <a@b@c> '' =
     Some \<lparr>local_part = ''a'', domain = ''b@c'', full_address = ''a@b@c''\<rparr>"
    by simp
  moreover have "trim_ws (extract_brackets ''<>'') = []"
    by (simp add: parse_eval_defs)
  moreover have "extract_brackets (''  '' @ CHR ''<'' # ''a@b@c'' @ CHR ''>'' # '' '') = ''a@b@c''"
  proof -
    have "\<forall>a b c. CHR ''<'' \<notin> set a \<and> CHR ''>'' \<notin> set a \<and> CHR ''>'' \<notin> set b \<longrightarrow>
      extract_brackets (a @ CHR ''<'' # b @ CHR ''>'' # c) = b"
      using C6_parse_amended [of "[]"]
      by (rule conjunct2 [THEN conjunct2, THEN conjunct2, THEN conjunct2, THEN conjunct1])
    then have "CHR ''<'' \<notin> set ''  '' \<and> CHR ''>'' \<notin> set ''  '' \<and> CHR ''>'' \<notin> set ''a@b@c'' \<longrightarrow>
      extract_brackets (''  '' @ CHR ''<'' # ''a@b@c'' @ CHR ''>'' # '' '') = ''a@b@c''"
      by blast
    then show ?thesis by simp
  qed
  moreover have "trim_ws ('' '' @ ''a@b@c'' @ [CHR 0x09]) = ''a@b@c''"
  proof -
    have "\<forall>w1 m w2. set w1 \<subseteq> {CHR '' '', CHR 0x09} \<and> set w2 \<subseteq> {CHR '' '', CHR 0x09} \<and> m \<noteq> [] \<and>
      hd m \<notin> {CHR '' '', CHR 0x09} \<and> last m \<notin> {CHR '' '', CHR 0x09} \<longrightarrow>
      trim_ws (w1 @ m @ w2) = m"
      using C6_parse_amended [of "[]"]
      by (rule conjunct2 [THEN conjunct2, THEN conjunct2, THEN conjunct2, THEN conjunct2,
            THEN conjunct2, THEN conjunct2, THEN conjunct2, THEN conjunct1])
    then have "set '' '' \<subseteq> {CHR '' '', CHR 0x09} \<and> set [CHR 0x09] \<subseteq> {CHR '' '', CHR 0x09} \<and>
      ''a@b@c'' \<noteq> [] \<and> hd ''a@b@c'' \<notin> {CHR '' '', CHR 0x09} \<and>
      last ''a@b@c'' \<notin> {CHR '' '', CHR 0x09} \<longrightarrow>
      trim_ws ('' '' @ ''a@b@c'' @ [CHR 0x09]) = ''a@b@c''"
      by blast
    then show ?thesis by simp
  qed
  ultimately show ?thesis
    using e C6_parse_amended [of "''<>''"] by simp
qed

subsection \<open>POP3 STAT\<close>









lemma pop3_inv_send [simp]:
  "pop3_inv s0 (send x s) = pop3_inv s0 s"
  "pop3_inv s0 (send_line x s) = pop3_inv s0 s"
  "pop3_inv s0 (stop s) = pop3_inv s0 s"
  by (simp_all add: pop3_inv_def send_def send_line_def stop_def)















subsection \<open>UID allocation\<close>

lemma read_after_write:
  assumes "fs (get_mailbox_path mbox) \<noteq> None"
  shows "read_uid_file (write_uid_file fs mbox a b) mbox = (a, b)"
    and "write_uid_file fs mbox a b (get_mailbox_path mbox) \<noteq> None"
  using assms by (auto simp: read_uid_file_def write_uid_file_def)

lemma allocate_uid_step:
  assumes "fs (get_mailbox_path mbox) \<noteq> None"
  shows "fst (allocate_uid fs mbox) = snd (read_uid_file fs mbox)"
    and "snd (read_uid_file (snd (allocate_uid fs mbox)) mbox) = snd (read_uid_file fs mbox) + 1"
    and "snd (allocate_uid fs mbox) (get_mailbox_path mbox) \<noteq> None"
  using assms read_after_write [of fs mbox, OF assms]
  by (simp_all add: allocate_uid_def split: prod.splits)

lemma allocate_uid_times_values:
  assumes "fs (get_mailbox_path mbox) \<noteq> None"
  shows "fst (allocate_uid_times n fs mbox) =
           map (\<lambda>i. snd (read_uid_file fs mbox) + of_nat i) [0..<n] \<and>
         snd (read_uid_file (snd (allocate_uid_times n fs mbox)) mbox) =
           snd (read_uid_file fs mbox) + of_nat n"
  using assms
proof (induction n arbitrary: fs)
  case 0
  then show ?case by simp
next
  case (Suc n)
  obtain u fs' where a: "allocate_uid fs mbox = (u, fs')" by (cases "allocate_uid fs mbox")
  obtain us fs'' where b: "allocate_uid_times n fs' mbox = (us, fs'')"
    by (cases "allocate_uid_times n fs' mbox")
  from allocate_uid_step [of fs mbox, OF Suc.prems] a
  have u: "u = snd (read_uid_file fs mbox)"
    and r: "snd (read_uid_file fs' mbox) = snd (read_uid_file fs mbox) + 1"
    and e: "fs' (get_mailbox_path mbox) \<noteq> None"
    by simp_all
  from Suc.IH [of fs', OF e] b r
  have us: "us = map (\<lambda>i. snd (read_uid_file fs mbox) + 1 + of_nat i) [0..<n]"
    and fin: "snd (read_uid_file fs'' mbox) = snd (read_uid_file fs mbox) + 1 + of_nat n"
    by simp_all
  have "map (\<lambda>i. snd (read_uid_file fs mbox) + of_nat i) [0..<Suc n] =
        snd (read_uid_file fs mbox) # map (\<lambda>i. snd (read_uid_file fs mbox) + 1 + of_nat i) [0..<n]"
    by (simp add: upt_conv_Cons map_Suc_upt [symmetric] add.assoc del: upt_Suc)
  with a b u us fin show ?case by (simp add: add.assoc)
qed

lemma increasing_without_wrap:
  fixes k :: "32 word"
  assumes "unat k + n \<le> 2 ^ 32"
  shows "sorted_wrt (<) (map (\<lambda>i. k + of_nat i) [0..<n])"
proof -
  have v: "unat (k + of_nat i) = unat k + i" if "i < n" for i
  proof -
    have "unat k + i < 2 ^ 32" using that assms by simp
    moreover have "i < 2 ^ 32" using that assms by simp
    ultimately show ?thesis
      by (simp add: unat_word_ariths unat_of_nat)
  qed
  have "k + of_nat i < k + of_nat j" if "i < j" "j < n" for i j
    using that v [of i] v [of j] by (simp add: word_less_nat_alt)
  then show ?thesis
    by (simp add: sorted_wrt_iff_nth_less)
qed

lemma allocate_uid_times_numeral:
  "allocate_uid_times (numeral k) fs mbox =
     (case allocate_uid fs mbox of
        (u, fs') \<Rightarrow> (case allocate_uid_times (pred_numeral k) fs' mbox of
                      (us, fs'') \<Rightarrow> (u # us, fs'')))"
  by (simp add: numeral_eq_Suc)

text \<open>
  C8 as stated fails at the end of the 32-bit range: with the persisted next-UID value
  4294967295 the first call returns 4294967295 and writes back 0, and the second call returns
  0.
\<close>

theorem C8_counterexample:
  "c8_fs (get_mailbox_path ''INBOX'') \<noteq> None \<and>
   fst (allocate_uid_times 2 c8_fs ''INBOX'') = [4294967295, 0] \<and>
   \<not> ((4294967295 :: 32 word) < 0)"
  by (simp add: allocate_uid_times_numeral allocate_uid_def read_uid_file_def write_uid_file_def
      get_mailbox_path_def c8_fs_def c8_dir_def)

text \<open>
  C8 (amended). On an existing mailbox directory \<^verbatim>\<open>allocate_uid\<close> returns the persisted
  next-UID value (1 when the file or the number is missing) and writes back that value plus
  one in 32-bit arithmetic. As long as the persisted value plus \<open>n\<close> does not exceed \<open>2^32\<close>,
  \<open>n\<close> calls in sequence return \<open>n\<close> strictly increasing values, and on a mailbox without a
  \<^verbatim>\<open>.uidvalidity\<close> file the first value is 1, whether or not \<^verbatim>\<open>get_uid_validity\<close> has
  created the file first.
\<close>

theorem C8_allocate_uid_amended:
  assumes "fs (get_mailbox_path mbox) = Some d"
    and "unat (snd (read_uid_file fs mbox)) + n \<le> 2 ^ 32"
  shows "fst (allocate_uid fs mbox) = snd (read_uid_file fs mbox) \<and>
         snd (read_uid_file (snd (allocate_uid fs mbox)) mbox) = snd (read_uid_file fs mbox) + 1 \<and>
         fst (allocate_uid_times n fs mbox) =
           map (\<lambda>i. snd (read_uid_file fs mbox) + of_nat i) [0..<n] \<and>
         sorted_wrt (<) (fst (allocate_uid_times n fs mbox)) \<and>
         length (fst (allocate_uid_times n fs mbox)) = n \<and>
         (uidvalidity_file d = None \<longrightarrow>
            fst (allocate_uid fs mbox) = 1 \<and>
            fst (allocate_uid (snd (get_uid_validity now fs mbox)) mbox) = 1)"
proof -
  have ex: "fs (get_mailbox_path mbox) \<noteq> None" using assms(1) by simp
  note st = allocate_uid_step [of fs mbox, OF ex]
  note vs = allocate_uid_times_values [of fs mbox n, OF ex]
  have inc: "sorted_wrt (<) (fst (allocate_uid_times n fs mbox))"
    using increasing_without_wrap [OF assms(2)] vs by simp
  have len: "length (fst (allocate_uid_times n fs mbox)) = n"
    using vs by simp
  have fresh: "fst (allocate_uid fs mbox) = 1 \<and>
      fst (allocate_uid (snd (get_uid_validity now fs mbox)) mbox) = 1"
    if "uidvalidity_file d = None"
    using that assms(1)
    by (simp add: allocate_uid_def read_uid_file_def get_uid_validity_def write_uid_file_def)
  show ?thesis using st(1,2) vs inc len fresh by blast
qed

theorem C8_allocate_uid_amended_witness:
  "fresh_fs (get_mailbox_path ''INBOX'') = Some fresh_dir \<and>
   unat (snd (read_uid_file fresh_fs ''INBOX'')) + 3 \<le> 2 ^ 32 \<and>
   uidvalidity_file fresh_dir = None \<and>
   fst (allocate_uid_times 3 fresh_fs ''INBOX'') = [1, 2, 3] \<and>
   fst (allocate_uid fresh_fs ''INBOX'') = 1"
proof -
  have h1: "fresh_fs (get_mailbox_path ''INBOX'') = Some fresh_dir"
    by (simp add: fresh_fs_def get_mailbox_path_def)
  have r: "snd (read_uid_file fresh_fs ''INBOX'') = 1"
    by (simp add: read_uid_file_def h1 fresh_dir_def)
  have h2: "unat (snd (read_uid_file fresh_fs ''INBOX'')) + 3 \<le> 2 ^ 32"
    by (simp add: r)
  have h3: "uidvalidity_file fresh_dir = None" by (simp add: fresh_dir_def)
  have m: "map (\<lambda>i. (1 :: 32 word) + of_nat i) [0..<3] = [1, 2, 3]"
    by (simp add: upt_conv_Cons)
  from C8_allocate_uid_amended [of fresh_fs "''INBOX''" fresh_dir 3 0, OF h1 h2] h3
  have "fst (allocate_uid_times 3 fresh_fs ''INBOX'') = [1, 2, 3]"
    and "fst (allocate_uid fresh_fs ''INBOX'') = 1"
    by (simp_all add: r m)
  with h1 h2 h3 show ?thesis by blast
qed

subsection \<open>Mailbox information and the UID counter\<close>

lemma list_messages_write_uid_file [simp]:
  "list_messages srt (write_uid_file fs mbox a b) m = list_messages srt fs m"
  by (auto simp: list_messages_def write_uid_file_def split: option.splits)

lemma get_uid_validity_next:
  assumes "fs (get_mailbox_path mbox) \<noteq> None"
  shows "snd (read_uid_file (snd (get_uid_validity now fs mbox)) mbox) = snd (read_uid_file fs mbox)"
    and "snd (get_uid_validity now fs mbox) (get_mailbox_path mbox) \<noteq> None"
    and "list_messages srt (snd (get_uid_validity now fs mbox)) m = list_messages srt fs m"
  using assms
  by (auto simp: get_uid_validity_def read_uid_file_def write_uid_file_def list_messages_def
      split: option.splits list.splits)

lemma allocate_uid_messages [simp]:
  "list_messages srt (snd (allocate_uid fs mbox)) m = list_messages srt fs m"
  by (simp add: allocate_uid_def split: prod.splits)

lemma get_mailbox_info_exists:
  assumes "fs (get_mailbox_path name) \<noteq> None"
  shows "snd (get_mailbox_info srt now fs name) =
           snd (allocate_uid (snd (get_uid_validity now fs name)) name)"
    and "map_option uid_next (fst (get_mailbox_info srt now fs name)) =
           Some (fst (allocate_uid (snd (get_uid_validity now fs name)) name))"
  using assms by (auto simp add: get_mailbox_info_def Let_def case_prod_beta)

lemma store_load_fold:
  "store (fst (foldl load_step (s, q) ms)) = store s \<and>
   selected (fst (foldl load_step (s, q) ms)) = selected s"
  by (induction ms arbitrary: s q) (simp_all add: load_step_def Let_def)

lemma store_load_messages [simp]: "store (load_messages srt s) = store s"
  by (simp add: load_messages_def Let_def update_mailbox_counts_def store_load_fold
      split: option.splits)

lemma selected_load_messages: "selected s \<noteq> None \<Longrightarrow> selected (load_messages srt s) \<noteq> None"
  by (auto simp add: load_messages_def Let_def update_mailbox_counts_def store_load_fold
      split: option.splits)

lemma select_mailbox_store:
  assumes "maildir_open s"
  shows "store (snd (select_mailbox srt now s name ro)) =
           snd (get_mailbox_info srt now (store s) (if name = [] then ''INBOX'' else name))"
    and "fst (select_mailbox srt now s name ro) \<Longrightarrow> selected (snd (select_mailbox srt now s name ro)) \<noteq> None"
proof -
  obtain oi fs' where r:
    "get_mailbox_info srt now (store s) (if name = [] then ''INBOX'' else name) = (oi, fs')"
    by (cases "get_mailbox_info srt now (store s) (if name = [] then ''INBOX'' else name)")
  show "store (snd (select_mailbox srt now s name ro)) =
           snd (get_mailbox_info srt now (store s) (if name = [] then ''INBOX'' else name))"
    using assms by (cases oi) (simp_all only: select_mailbox_def Let_def r, simp_all)
  show "fst (select_mailbox srt now s name ro) \<Longrightarrow> selected (snd (select_mailbox srt now s name ro)) \<noteq> None"
    using assms
    by (cases oi) (simp_all only: select_mailbox_def Let_def r, simp_all add: selected_load_messages)
qed

text \<open>
  C10 as stated fails at the end of the counter's range. In a mailbox whose persisted
  next-UID value is 4294967295, \<^verbatim>\<open>get_mailbox_info\<close> reports that value as \<open>uid_next\<close>
  and leaves 0 in the \<^verbatim>\<open>.uidvalidity\<close> file: the counter is not incremented by one.
\<close>

theorem C10_counterexample:
  "c8_fs (get_mailbox_path ''INBOX'') = Some c8_dir \<and>
   snd (read_uid_file c8_fs ''INBOX'') = 4294967295 \<and>
   map_option uid_next (fst (get_mailbox_info (sort_key timestamp) 1000 c8_fs ''INBOX'')) =
     Some 4294967295 \<and>
   snd (read_uid_file (snd (get_mailbox_info (sort_key timestamp) 1000 c8_fs ''INBOX'')) ''INBOX'') = 0 \<and>
   unat (snd (read_uid_file (snd (get_mailbox_info (sort_key timestamp) 1000 c8_fs ''INBOX''))
           ''INBOX'')) \<noteq> unat (snd (read_uid_file c8_fs ''INBOX'')) + 1"
  by (simp add: get_mailbox_info_def get_uid_validity_def allocate_uid_def read_uid_file_def
      write_uid_file_def c8_fs_def c8_dir_def get_mailbox_path_def Let_def)

text \<open>
  C10 (amended). Every call of \<^verbatim>\<open>get_mailbox_info\<close> on a mailbox that exists returns
  an info record, runs \<^verbatim>\<open>allocate_uid\<close> on that mailbox, reports the persisted next-UID
  value as \<open>uid_next\<close> and leaves that value plus one in 32-bit unsigned arithmetic in the
  \<^verbatim>\<open>.uidvalidity\<close> file: one more below 4294967295, and 0 at 4294967295. The store has
  changed, the message list of every mailbox has not. The store after
  \<^verbatim>\<open>select_mailbox\<close>, and so after a SELECT or EXAMINE of that mailbox by a session
  that is authenticated with its maildir open, and after such a STATUS, is the store after
  that call of \<^verbatim>\<open>get_mailbox_info\<close>.
\<close>

theorem C10_get_mailbox_info_amended:
  assumes "fs (get_mailbox_path name) = Some d"
  shows "(case get_mailbox_info srt now fs name of
            (None, fs') \<Rightarrow> False
          | (Some info, fs') \<Rightarrow>
              uid_next info = snd (read_uid_file fs name) \<and>
              snd (read_uid_file fs' name) = snd (read_uid_file fs name) + 1 \<and>
              unat (snd (read_uid_file fs' name)) =
                (unat (snd (read_uid_file fs name)) + 1) mod 2 ^ 32 \<and>
              (snd (read_uid_file fs name) \<noteq> 4294967295 \<longrightarrow>
                 unat (snd (read_uid_file fs' name)) = unat (snd (read_uid_file fs name)) + 1) \<and>
              (snd (read_uid_file fs name) = 4294967295 \<longrightarrow> snd (read_uid_file fs' name) = 0) \<and>
              fs' = snd (allocate_uid (snd (get_uid_validity now fs name)) name) \<and>
              fs' \<noteq> fs \<and>
              (\<forall>m. list_messages srt fs' m = list_messages srt fs m)) \<and>
         (\<forall>s ro. maildir_open s \<and> store s = fs \<and> name \<noteq> [] \<longrightarrow>
            store (snd (select_mailbox srt now s name ro)) = snd (get_mailbox_info srt now fs name)) \<and>
         (\<forall>env s cmd. imap_state s \<in> {AUTHENTICATED, SELECTED} \<and> maildir_open s \<and> store s = fs \<and>
              env_std_sort env = srt \<and> env_now env = now \<and> mailbox_argument (imap_arguments cmd) = name \<and> name \<noteq> [] \<longrightarrow>
            store (snd (handle_select env s cmd)) = snd (get_mailbox_info srt now fs name) \<and>
            (case handle_examine env s cmd of
               Inl e \<Rightarrow> False
             | Inr (rs, s') \<Rightarrow> store s' = snd (get_mailbox_info srt now fs name))) \<and>
         (\<forall>env s cmd. imap_state s \<in> {AUTHENTICATED, SELECTED} \<and> maildir_open s \<and> store s = fs \<and>
              env_std_sort env = srt \<and> env_now env = now \<and> fst (parse_string (imap_arguments cmd)) = Some name \<longrightarrow>
            (case handle_status env s cmd of
               Inl e \<Rightarrow> False
             | Inr (rs, s') \<Rightarrow> store s' = snd (get_mailbox_info srt now fs name)))"
proof -
  have ex: "fs (get_mailbox_path name) \<noteq> None" using assms by simp
  let ?fs1 = "snd (get_uid_validity now fs name)"
  note v = get_uid_validity_next [where fs = fs and mbox = name and now = now, OF ex]
  note a = allocate_uid_step [of ?fs1 name, OF v(2)]
  note g = get_mailbox_info_exists [where fs = fs and name = name and srt = srt and now = now, OF ex]
  obtain oi fs' where r: "get_mailbox_info srt now fs name = (oi, fs')"
    by (cases "get_mailbox_info srt now fs name")
  from g(2) r obtain info where oi: "oi = Some info"
    and un: "uid_next info = fst (allocate_uid ?fs1 name)"
    by (cases oi) auto
  have fs': "fs' = snd (allocate_uid ?fs1 name)" using g(1) r by simp
  have nx: "snd (read_uid_file fs' name) = snd (read_uid_file fs name) + 1"
    using a(2) v(1) fs' by simp
  have "fs' \<noteq> fs"
  proof
    assume "fs' = fs"
    with nx have "snd (read_uid_file fs name) = snd (read_uid_file fs name) + 1" by simp
    then show False by simp
  qed
  moreover have "\<forall>m. list_messages srt fs' m = list_messages srt fs m"
    using v(3) fs' by simp
  moreover have "uid_next info = snd (read_uid_file fs name)"
    using un a(1) v(1) by simp
  moreover have "unat (snd (read_uid_file fs' name)) =
                (unat (snd (read_uid_file fs name)) + 1) mod 2 ^ 32"
    by (simp add: nx unat_word_ariths)
  moreover have "snd (read_uid_file fs name) \<noteq> 4294967295 \<longrightarrow>
                 unat (snd (read_uid_file fs' name)) = unat (snd (read_uid_file fs name)) + 1"
  proof
    assume ne: "snd (read_uid_file fs name) \<noteq> 4294967295"
    have lt: "unat (snd (read_uid_file fs name)) < 4294967296"
      using unsigned_less [of "snd (read_uid_file fs name)", where ?'a = nat] by simp
    have "unat (snd (read_uid_file fs name)) \<noteq> 4294967295"
      using ne by (simp add: word_unat_eq_iff)
    with lt have "unat (snd (read_uid_file fs name)) + 1 < 2 ^ 32" by simp
    then show "unat (snd (read_uid_file fs' name)) = unat (snd (read_uid_file fs name)) + 1"
      by (simp add: nx unat_word_ariths)
  qed
  moreover have "snd (read_uid_file fs name) = 4294967295 \<longrightarrow> snd (read_uid_file fs' name) = 0"
    by (simp add: nx)
  ultimately have part1: "(case get_mailbox_info srt now fs name of
            (None, fs') \<Rightarrow> False
          | (Some info, fs') \<Rightarrow>
              uid_next info = snd (read_uid_file fs name) \<and>
              snd (read_uid_file fs' name) = snd (read_uid_file fs name) + 1 \<and>
              unat (snd (read_uid_file fs' name)) =
                (unat (snd (read_uid_file fs name)) + 1) mod 2 ^ 32 \<and>
              (snd (read_uid_file fs name) \<noteq> 4294967295 \<longrightarrow>
                 unat (snd (read_uid_file fs' name)) = unat (snd (read_uid_file fs name)) + 1) \<and>
              (snd (read_uid_file fs name) = 4294967295 \<longrightarrow> snd (read_uid_file fs' name) = 0) \<and>
              fs' = snd (allocate_uid (snd (get_uid_validity now fs name)) name) \<and>
              fs' \<noteq> fs \<and>
              (\<forall>m. list_messages srt fs' m = list_messages srt fs m))"
    using r oi nx fs' by simp
  have sel: "store (snd (select_mailbox srt now s name ro)) = snd (get_mailbox_info srt now fs name)"
    if "maildir_open s" "store s = fs" "name \<noteq> []" for s ro
    using select_mailbox_store(1) [where s = s and srt = srt and now = now and name = name and ro = ro, OF that(1)] that(2,3) by simp
  have selok: "fst (select_mailbox srt now s name ro)"
    if "maildir_open s" "store s = fs" "name \<noteq> []" for s ro
    using that r oi by (simp add: select_mailbox_def Let_def)
  have hsel: "store (snd (handle_select env s cmd)) = snd (get_mailbox_info srt now fs name)"
    if "imap_state s \<in> {AUTHENTICATED, SELECTED}" "maildir_open s" "store s = fs"
      "env_std_sort env = srt" "env_now env = now" "mailbox_argument (imap_arguments cmd) = name" "name \<noteq> []" for env s cmd
    using that sel [OF that(2,3,7), of False]
    by (auto simp: handle_select_def Let_def split: prod.splits bool.splits option.splits)
  have hex: "(case handle_examine env s cmd of
               Inl e \<Rightarrow> False
             | Inr (rs, s') \<Rightarrow> store s' = snd (get_mailbox_info srt now fs name))"
    if "imap_state s \<in> {AUTHENTICATED, SELECTED}" "maildir_open s" "store s = fs"
      "env_std_sort env = srt" "env_now env = now" "mailbox_argument (imap_arguments cmd) = name" "name \<noteq> []" for env s cmd
  proof -
    obtain b s1 where sm: "select_mailbox srt now s name True = (b, s1)"
      by (cases "select_mailbox srt now s name True")
    have b: "b" using selok [OF that(2,3,7), of True] sm by simp
    have "selected s1 \<noteq> None"
      using select_mailbox_store(2) [where s = s and srt = srt and now = now and name = name and ro = True, OF that(2)] sm b by simp
    moreover have "store s1 = snd (get_mailbox_info srt now fs name)"
      using sel [OF that(2,3,7), of True] sm by simp
    ultimately show ?thesis
      using that(1,4,5,6) sm b by (auto simp: handle_examine_def split: option.splits)
  qed
  have hst: "(case handle_status env s cmd of
               Inl e \<Rightarrow> False
             | Inr (rs, s') \<Rightarrow> store s' = snd (get_mailbox_info srt now fs name))"
    if "imap_state s \<in> {AUTHENTICATED, SELECTED}" "maildir_open s" "store s = fs"
      "env_std_sort env = srt" "env_now env = now" "fst (parse_string (imap_arguments cmd)) = Some name" for env s cmd
    using that r oi by (auto simp: handle_status_def)
  show ?thesis
    using part1 sel hsel hex hst by blast
qed

theorem C10_get_mailbox_info_amended_witness:
  "fresh_fs (get_mailbox_path ''INBOX'') = Some fresh_dir \<and>
   map_option uid_next (fst (get_mailbox_info (sort_key timestamp) 1000 fresh_fs ''INBOX'')) = Some 1 \<and>
   snd (read_uid_file (snd (get_mailbox_info (sort_key timestamp) 1000 fresh_fs ''INBOX'')) ''INBOX'') = 2 \<and>
   maildir_open c10_session \<and> store c10_session = fresh_fs \<and>
   snd (read_uid_file (store (snd (select_mailbox (sort_key timestamp) 1000 c10_session ''INBOX'' False))) ''INBOX'') = 2"
proof -
  have h1: "fresh_fs (get_mailbox_path ''INBOX'') = Some fresh_dir"
    by (simp add: fresh_fs_def get_mailbox_path_def)
  have r: "snd (read_uid_file fresh_fs ''INBOX'') = 1"
    by (simp add: read_uid_file_def h1 fresh_dir_def)
  have h2: "maildir_open c10_session" "store c10_session = fresh_fs"
    by (simp_all add: c10_session_def)
  note t = C10_get_mailbox_info_amended [where fs = fresh_fs and name = "''INBOX''" and d = fresh_dir
      and srt = "sort_key timestamp" and now = 1000, OF h1]
  obtain oi fs' where g: "get_mailbox_info (sort_key timestamp) 1000 fresh_fs ''INBOX'' = (oi, fs')"
    by (cases "get_mailbox_info (sort_key timestamp) 1000 fresh_fs ''INBOX''")
  from t g obtain info where oi: "oi = Some info" and a: "uid_next info = 1"
    and b: "snd (read_uid_file fs' ''INBOX'') = 2"
    by (cases oi) (auto simp: r)
  from t have "maildir_open c10_session \<and> store c10_session = fresh_fs \<and> ''INBOX'' \<noteq> [] \<longrightarrow>
      store (snd (select_mailbox (sort_key timestamp) 1000 c10_session ''INBOX'' False)) =
      snd (get_mailbox_info (sort_key timestamp) 1000 fresh_fs ''INBOX'')"
    by blast
  with h2 g have "store (snd (select_mailbox (sort_key timestamp) 1000 c10_session ''INBOX'' False)) = fs'"
    by simp
  with h1 h2 g oi a b show ?thesis by simp
qed

subsection \<open>IMAP FETCH and UID FETCH\<close>

lemmas maildir_eval_defs = list_messages_def get_mailbox_path_def parse_message_file_def
  parse_flags_def str_find_def substr_def get_mailbox_info_def get_uid_validity_def
  allocate_uid_def read_uid_file_def write_uid_file_def get_message_def starts_with_def
  get_message_content_def read_file_def

lemmas imap_load_defs = select_mailbox_def load_messages_def load_step_def
  update_mailbox_counts_def maildir_to_imap_flags_def Let_def

lemma c4_list: "list_messages (sort_key timestamp) c4_fs ''INBOX'' =
   [\<lparr>unique_id = ''m1'', path = (False, ''m1''), msg_bytes = 5, timestamp = 1, flags = {},
      is_new = False, mailbox = ''INBOX''\<rparr>,
    \<lparr>unique_id = ''m2'', path = (False, ''m2''), msg_bytes = 3, timestamp = 2, flags = {},
      is_new = False, mailbox = ''INBOX''\<rparr>]"
  by (simp add: maildir_eval_defs c4_fs_def c4_dir_def)

lemma c3_session_messages:
  "imap_messages c3_session =
     [\<lparr>sequence_number = 1, uid = 1, cm_unique_id = ''m1'', cm_size = 5, cm_flags = {},
        internal_date = 1\<rparr>,
      \<lparr>sequence_number = 2, uid = 2, cm_unique_id = ''m2'', cm_size = 3, cm_flags = {},
        internal_date = 2\<rparr>]"
  "imap_state c3_session = SELECTED"
  "maildir_open c3_session"
  "map_option sel_name (selected c3_session) = Some ''INBOX''"
  "next_uid c3_session = 3"
  by (simp_all add: c3_session_def imap_load_defs maildir_eval_defs c4_start_def c4_fs_def c4_dir_def)

lemma tok_1_BODY: "read_token ''1 BODY[]'' = (''1'', '' BODY[]'')"
  by (simp add: read_token_def isspace_def)

lemma getline_BODY: "getline_ws '' BODY[]'' = ''BODY[]''"
  by (simp add: getline_ws_def isspace_def)

lemma stoul32_1: "stoul32 ''1'' = Inr 1"
  by (simp add: stoul32_def stoul_def isspace_def isdigit_def decimal_value_def digit_val_def)

lemma seqset_1: "parse_sequence_set ''1'' = Inr (Some [\<lparr>range_start = 1, range_end = 1\<rparr>])"
  by (simp add: parse_sequence_set_def SequenceSet_parse_def parse_range_def str_find_def stoul32_1)

lemma items_BODY: "parse_fetch_items ''BODY[]'' = [\<lparr>fi_type = FI_BODY, fi_section = []\<rparr>]"
  by (simp add: parse_fetch_items_def strip_parens_def read_token_def isspace_def toupper_def
      fetch_item_of_token_def starts_with_def parse_section_def str_find_def substr_def
      List.map_filter_def)

lemma contains_1:
  "contains [\<lparr>range_start = 1, range_end = 1\<rparr>] 1"
  "\<not> contains [\<lparr>range_start = 1, range_end = 1\<rparr>] 2"
  by (simp_all add: contains_def word_le_nat_alt)

lemma c3_session_selected: "\<exists>sel. selected c3_session = Some sel \<and> sel_name sel = ''INBOX''"
  using c3_session_messages(4) by (cases "selected c3_session") auto

lemma c3_store: "store c3_session = write_uid_file c4_fs ''INBOX'' 7 2"
  by (simp add: c3_session_def select_mailbox_def Let_def get_mailbox_info_def
      get_uid_validity_def allocate_uid_def read_uid_file_def get_mailbox_path_def c4_start_def
      c4_fs_def c4_dir_def write_uid_file_def)

lemma c3_store_content:
  "get_message_content (store c3_session) ''m1'' ''INBOX'' = Inr (Some ''hello'')"
  by (simp add: c3_store write_uid_file_def get_message_content_def get_message_def
      get_mailbox_path_def starts_with_def read_file_def parse_message_file_def c4_fs_def c4_dir_def)

lemma to_string_digit: "n < 10 \<Longrightarrow> to_string n = [digit_char n]"
  by (simp add: to_string.simps)

lemma c3_body_text:
  "fetch_item_text c4_env c3_session
     \<lparr>sequence_number = 1, uid = 1, cm_unique_id = ''m1'', cm_size = 5, cm_flags = {},
        internal_date = 1\<rparr>
     \<lparr>fi_type = FI_BODY, fi_section = []\<rparr> = Inr (''BODY[] {5}'' @ CRLF @ ''hello'')"
proof -
  obtain sel where sel: "selected c3_session = Some sel" "sel_name sel = ''INBOX''"
    using c3_session_selected by blast
  show ?thesis
    by (simp add: fetch_item_text_def imap_get_message_content_def get_message_by_sequence_def
        c3_session_messages sel c3_store_content to_string_digit digit_char_def)
qed

lemma c3_fetch_eval:
  "handle_fetch c4_env c3_session
     \<lparr>imap_type = CT_FETCH, imap_tag = ''a'', imap_name = ''FETCH'', imap_arguments = ''1 BODY[]''\<rparr> =
   Inr ([''* 1 FETCH (BODY[] {5}'' @ CRLF @ ''hello)'', ''a OK FETCH completed''], c3_session)"
proof -
  have loop: "fetch_loop c4_env c3_session [\<lparr>range_start = 1, range_end = 1\<rparr>]
      [\<lparr>fi_type = FI_BODY, fi_section = []\<rparr>] (imap_messages c3_session) =
      Inr [''* 1 FETCH (BODY[] {5}'' @ CRLF @ ''hello)'']"
    by (simp add: c3_session_messages(1) contains_1 c3_body_text untagged_def to_string_digit
        digit_char_def)
  show ?thesis
    by (simp add: handle_fetch_def c3_session_messages(2) tok_1_BODY getline_BODY seqset_1
        items_BODY loop imap_ok_def)
qed

text \<open>
  C3 as stated fails: FETCH 1 BODY[] on an unseen message returns the body and leaves the
  session, with its flag sets and its store, as it was; \<open>\Seen\<close> is not added.
\<close>

theorem C3_counterexample:
  "flag_Seen \<notin> cm_flags (imap_messages c3_session ! 0) \<and>
   handle_fetch c4_env c3_session
     \<lparr>imap_type = CT_FETCH, imap_tag = ''a'', imap_name = ''FETCH'', imap_arguments = ''1 BODY[]''\<rparr> =
   Inr ([''* 1 FETCH (BODY[] {5}'' @ CRLF @ ''hello)'', ''a OK FETCH completed''], c3_session)"
  using c3_fetch_eval by (simp add: c3_session_messages)

lemma handle_fetch_session:
  "handle_fetch env s cmd = Inr (rs, s') \<Longrightarrow> s' = s"
  by (auto simp: handle_fetch_def Let_def split: if_splits prod.splits sum.splits option.splits)

lemma send_lines_sent:
  "foldl (\<lambda>t r. send_line r t) s rs = s\<lparr>sent := sent s @ map (\<lambda>r. r @ CRLF) rs\<rparr>"
  by (induction rs arbitrary: s) (simp_all add: send_line_def send_def)

lemma items_BODY_PEEK:
  "parse_fetch_items ''BODY.PEEK[]'' = [\<lparr>fi_type = FI_BODY_PEEK, fi_section = []\<rparr>]"
  by (simp add: parse_fetch_items_def strip_parens_def read_token_def isspace_def toupper_def
      fetch_item_of_token_def starts_with_def parse_section_def str_find_def substr_def
      List.map_filter_def)

lemma items_RFC822:
  "parse_fetch_items ''RFC822'' = [\<lparr>fi_type = FI_RFC822, fi_section = []\<rparr>]"
  by (simp add: parse_fetch_items_def strip_parens_def read_token_def isspace_def toupper_def
      fetch_item_of_token_def List.map_filter_def)

lemma c3_parse:
  "imap_Command_parse ''a FETCH 1 BODY[]'' =
     \<lparr>imap_type = CT_FETCH, imap_tag = ''a'', imap_name = ''FETCH'', imap_arguments = ''1 BODY[]''\<rparr>"
  by (simp add: imap_Command_parse_def parse_command_def read_token_def getline_ws_def
      isspace_def toupper_def imap_string_to_type_def)

text \<open>
  C3 (amended). A FETCH command changes nothing of the session but the responses it
  sends: the cached messages with their flag sets, and the maildir store, are after the
  command what they were before it, so \<open>\Seen\<close> is not added, for BODY[] and RFC822 no more
  than for BODY.PEEK. The three items are parsed as three item types and give the same
  response text, which is \<open>BODY[] {n}\<close>, CRLF and the \<open>n\<close> bytes of the message whenever the
  content of the message can be read.
\<close>

theorem C3_fetch_amended:
  "(\<forall>s'. imap_type (imap_Command_parse line) = CT_FETCH \<and>
         imap_process_command env line s = Inr s' \<longrightarrow>
         (\<exists>rs. handle_fetch env s (imap_Command_parse line) = Inr (rs, s) \<and>
               s' = s\<lparr>sent := sent s @ map (\<lambda>r. r @ CRLF) rs\<rparr>) \<and>
         imap_messages s' = imap_messages s \<and>
         map cm_flags (imap_messages s') = map cm_flags (imap_messages s) \<and>
         store s' = store s) \<and>
   (\<forall>rs s'. handle_fetch env s cmd = Inr (rs, s') \<longrightarrow> s' = s) \<and>
   fetch_item_text env s msg \<lparr>fi_type = FI_BODY, fi_section = x\<rparr> =
     fetch_item_text env s msg \<lparr>fi_type = FI_BODY_PEEK, fi_section = y\<rparr> \<and>
   fetch_item_text env s msg \<lparr>fi_type = FI_RFC822, fi_section = x\<rparr> =
     fetch_item_text env s msg \<lparr>fi_type = FI_BODY_PEEK, fi_section = y\<rparr> \<and>
   (\<forall>content. imap_get_message_content s (sequence_number msg) = Inr (Some content) \<longrightarrow>
      fetch_item_text env s msg \<lparr>fi_type = FI_BODY, fi_section = x\<rparr> =
        Inr (''BODY[] {'' @ to_string (length content) @ ''}'' @ CRLF @ content)) \<and>
   parse_fetch_items ''BODY[]'' = [\<lparr>fi_type = FI_BODY, fi_section = []\<rparr>] \<and>
   parse_fetch_items ''BODY.PEEK[]'' = [\<lparr>fi_type = FI_BODY_PEEK, fi_section = []\<rparr>] \<and>
   parse_fetch_items ''RFC822'' = [\<lparr>fi_type = FI_RFC822, fi_section = []\<rparr>]"
proof -
  have a: "\<forall>rs s'. handle_fetch env s cmd = Inr (rs, s') \<longrightarrow> s' = s"
    using handle_fetch_session by blast
  have b: "fetch_item_text env s msg \<lparr>fi_type = FI_BODY, fi_section = x\<rparr> =
     fetch_item_text env s msg \<lparr>fi_type = FI_BODY_PEEK, fi_section = y\<rparr>"
    "fetch_item_text env s msg \<lparr>fi_type = FI_RFC822, fi_section = x\<rparr> =
     fetch_item_text env s msg \<lparr>fi_type = FI_BODY_PEEK, fi_section = y\<rparr>"
    by (simp_all add: fetch_item_text_def)
  have c: "(\<exists>rs. handle_fetch env s (imap_Command_parse line) = Inr (rs, s) \<and>
               s' = s\<lparr>sent := sent s @ map (\<lambda>r. r @ CRLF) rs\<rparr>) \<and>
         imap_messages s' = imap_messages s \<and>
         map cm_flags (imap_messages s') = map cm_flags (imap_messages s) \<and>
         store s' = store s"
    if t: "imap_type (imap_Command_parse line) = CT_FETCH"
      and p: "imap_process_command env line s = Inr s'" for s'
  proof -
    from p t obtain rs s1 where h: "handle_fetch env s (imap_Command_parse line) = Inr (rs, s1)"
      and s': "s' = foldl (\<lambda>t r. send_line r t) s1 rs"
      by (auto simp: imap_process_command_def execute_def execute_base_def Let_def
          split: sum.splits prod.splits)
    from handle_fetch_session [OF h] have s1: "s1 = s" .
    from s' s1 have e: "s' = s\<lparr>sent := sent s @ map (\<lambda>r. r @ CRLF) rs\<rparr>"
      by (simp only: send_lines_sent)
    from h s1 have "handle_fetch env s (imap_Command_parse line) = Inr (rs, s)" by simp
    with e have "\<exists>rs. handle_fetch env s (imap_Command_parse line) = Inr (rs, s) \<and>
               s' = s\<lparr>sent := sent s @ map (\<lambda>r. r @ CRLF) rs\<rparr>" by blast
    moreover from e have "imap_messages s' = imap_messages s" "store s' = store s" by simp_all
    ultimately show ?thesis by simp
  qed
  have d: "fetch_item_text env s msg \<lparr>fi_type = FI_BODY, fi_section = x\<rparr> =
        Inr (''BODY[] {'' @ to_string (length content) @ ''}'' @ CRLF @ content)"
    if "imap_get_message_content s (sequence_number msg) = Inr (Some content)" for content
    using that by (simp add: fetch_item_text_def)
  show ?thesis
    using a b c d items_BODY items_BODY_PEEK items_RFC822 by blast
qed

theorem C3_fetch_amended_witness:
  "imap_type (imap_Command_parse ''a FETCH 1 BODY[]'') = CT_FETCH \<and>
   imap_process_command c4_env ''a FETCH 1 BODY[]'' c3_session =
     Inr (c3_session\<lparr>sent := sent c3_session @
            [''* 1 FETCH (BODY[] {5}'' @ CRLF @ ''hello)'' @ CRLF, ''a OK FETCH completed'' @ CRLF]\<rparr>) \<and>
   cm_flags (imap_messages c3_session ! 0) = {}"
proof -
  let ?cmd = "\<lparr>imap_type = CT_FETCH, imap_tag = ''a'', imap_name = ''FETCH'',
     imap_arguments = ''1 BODY[]''\<rparr>"
  have t: "imap_type (imap_Command_parse ''a FETCH 1 BODY[]'') = CT_FETCH"
    by (simp add: c3_parse)
  have "\<exists>s'. imap_process_command c4_env ''a FETCH 1 BODY[]'' c3_session = Inr s'"
    by (simp add: imap_process_command_def c3_parse execute_def execute_base_def c3_fetch_eval)
  then obtain s' where p: "imap_process_command c4_env ''a FETCH 1 BODY[]'' c3_session = Inr s'"
    by blast
  from C3_fetch_amended [of "''a FETCH 1 BODY[]''" c4_env c3_session] t p
  obtain rs where r: "handle_fetch c4_env c3_session (imap_Command_parse ''a FETCH 1 BODY[]'') =
      Inr (rs, c3_session)"
    and e: "s' = c3_session\<lparr>sent := sent c3_session @ map (\<lambda>r. r @ CRLF) rs\<rparr>"
    by blast
  from r have "rs = [''* 1 FETCH (BODY[] {5}'' @ CRLF @ ''hello)'', ''a OK FETCH completed'']"
    by (simp add: c3_parse c3_fetch_eval)
  with e p t show ?thesis by (simp add: c3_session_messages)
qed

lemma c4_session_messages:
  "imap_messages c4_session =
     [\<lparr>sequence_number = 1, uid = 3, cm_unique_id = ''m1'', cm_size = 5, cm_flags = {},
        internal_date = 1\<rparr>,
      \<lparr>sequence_number = 2, uid = 4, cm_unique_id = ''m2'', cm_size = 3, cm_flags = {},
        internal_date = 2\<rparr>]"
  "imap_state c4_session = SELECTED"
  "uid_to_seq c4_session 3 = Some 1"
  by (simp_all add: c4_session_def imap_load_defs maildir_eval_defs c4_start_def c4_fs_def c4_dir_def)

lemma tok_uid_fetch:
  "read_token ''FETCH 3 (FLAGS)'' = (''FETCH'', '' 3 (FLAGS)'')"
  "read_token ''FETCH 1 (FLAGS)'' = (''FETCH'', '' 1 (FLAGS)'')"
  "getline_ws '' 3 (FLAGS)'' = ''3 (FLAGS)''"
  "getline_ws '' 1 (FLAGS)'' = ''1 (FLAGS)''"
  "read_token ''3 (FLAGS)'' = (''3'', '' (FLAGS)'')"
  "read_token ''1 (FLAGS)'' = (''1'', '' (FLAGS)'')"
  "getline_ws '' (FLAGS)'' = ''(FLAGS)''"
  "map toupper ''FETCH'' = ''FETCH''"
  "imap_string_to_type ''FETCH'' = CT_FETCH"
  by (simp_all add: read_token_def getline_ws_def isspace_def toupper_def imap_string_to_type_def)

lemma stoul32_3: "stoul32 ''3'' = Inr 3"
  by (simp add: stoul32_def stoul_def isspace_def isdigit_def decimal_value_def digit_val_def)

lemma seqset_3: "parse_sequence_set ''3'' = Inr (Some [\<lparr>range_start = 3, range_end = 3\<rparr>])"
  by (simp add: parse_sequence_set_def SequenceSet_parse_def parse_range_def str_find_def stoul32_3)

lemma items_FLAGS: "parse_fetch_items ''(FLAGS)'' = [\<lparr>fi_type = FI_FLAGS, fi_section = []\<rparr>]"
  by (simp add: parse_fetch_items_def strip_parens_def read_token_def isspace_def toupper_def
      fetch_item_of_token_def List.map_filter_def)

lemma contains_3:
  "\<not> contains [\<lparr>range_start = 3, range_end = 3\<rparr>] 1"
  "\<not> contains [\<lparr>range_start = 3, range_end = 3\<rparr>] 2"
  by (simp_all add: contains_def word_le_nat_alt)

text \<open>
  C4, the code at the failing input. In a session whose messages 1 and 2 carry the UIDs 3
  and 4, \<open>UID FETCH 3 (FLAGS)\<close> yields no FETCH response although UID 3 is message 1, and
  \<open>UID FETCH 1 (FLAGS)\<close> answers for sequence number 1 without a UID item.
\<close>

theorem C4_uid_fetch_code:
  "map (\<lambda>m. (sequence_number m, uid m)) (imap_messages c4_session) = [(1, 3), (2, 4)] \<and>
   uid_to_seq c4_session 3 = Some 1 \<and>
   handle_uid c4_env c4_session
     \<lparr>imap_type = CT_UID, imap_tag = ''t'', imap_name = ''UID'', imap_arguments = ''FETCH 3 (FLAGS)''\<rparr> =
     Inr ([''t OK FETCH completed''], c4_session) \<and>
   handle_uid c4_env c4_session
     \<lparr>imap_type = CT_UID, imap_tag = ''t'', imap_name = ''UID'', imap_arguments = ''FETCH 1 (FLAGS)''\<rparr> =
     Inr ([''* 1 FETCH (FLAGS ())'', ''t OK FETCH completed''], c4_session)"
proof -
  have l3: "fetch_loop c4_env c4_session [\<lparr>range_start = 3, range_end = 3\<rparr>]
      [\<lparr>fi_type = FI_FLAGS, fi_section = []\<rparr>] (imap_messages c4_session) = Inr []"
    by (simp add: c4_session_messages(1) contains_3)
  have l1: "fetch_loop c4_env c4_session [\<lparr>range_start = 1, range_end = 1\<rparr>]
      [\<lparr>fi_type = FI_FLAGS, fi_section = []\<rparr>] (imap_messages c4_session) =
      Inr [''* 1 FETCH (FLAGS ())'']"
    by (simp add: c4_session_messages(1) contains_1 fetch_item_text_def format_flags_def
        untagged_def to_string_digit digit_char_def)
  have f3: "handle_fetch c4_env c4_session
      \<lparr>imap_type = CT_FETCH, imap_tag = ''t'', imap_name = ''FETCH'', imap_arguments = ''3 (FLAGS)''\<rparr> =
      Inr ([''t OK FETCH completed''], c4_session)"
    by (simp add: handle_fetch_def c4_session_messages(2) tok_uid_fetch seqset_3 items_FLAGS l3
        imap_ok_def)
  have f1: "handle_fetch c4_env c4_session
      \<lparr>imap_type = CT_FETCH, imap_tag = ''t'', imap_name = ''FETCH'', imap_arguments = ''1 (FLAGS)''\<rparr> =
      Inr ([''* 1 FETCH (FLAGS ())'', ''t OK FETCH completed''], c4_session)"
    by (simp add: handle_fetch_def c4_session_messages(2) tok_uid_fetch seqset_1 items_FLAGS l1
        imap_ok_def)
  have u3: "handle_uid c4_env c4_session
     \<lparr>imap_type = CT_UID, imap_tag = ''t'', imap_name = ''UID'', imap_arguments = ''FETCH 3 (FLAGS)''\<rparr> =
     Inr ([''t OK FETCH completed''], c4_session)"
    by (simp add: handle_uid_def c4_session_messages(2) tok_uid_fetch Let_def execute_base_def f3
        toupper_def)
  have u1: "handle_uid c4_env c4_session
     \<lparr>imap_type = CT_UID, imap_tag = ''t'', imap_name = ''UID'', imap_arguments = ''FETCH 1 (FLAGS)''\<rparr> =
     Inr ([''* 1 FETCH (FLAGS ())'', ''t OK FETCH completed''], c4_session)"
    by (simp add: handle_uid_def c4_session_messages(2) tok_uid_fetch Let_def execute_base_def f1
        toupper_def)
  show ?thesis
    using u3 u1 by (simp add: c4_session_messages)
qed

subsection \<open>The TLS upgrade and the input buffer\<close>

lemma contains_crlf_append: "contains_crlf (line @ CRLF @ rest)"
proof (induction line)
  case Nil
  show ?case by (simp add: CRLF_def)
next
  case (Cons a line)
  then show ?case by (cases line) (simp_all add: CRLF_def)
qed

lemma getline_split:
  assumes "CHR 0x0A \<notin> set line"
  shows "takeWhile (\<lambda>c. c \<noteq> CHR 0x0A) (line @ CRLF @ rest) = line @ [CHR 0x0D]"
    and "drop (Suc 0) (dropWhile (\<lambda>c. c \<noteq> CHR 0x0A) (line @ CRLF @ rest)) = rest"
  using assms by (induction line) (auto simp: CRLF_def)

lemma handle_read_line:
  assumes "CHR 0x0A \<notin> set line" and "read_buffer s = line @ CRLF @ rest"
  shows "handle_read on_data s = on_data line (s\<lparr>read_buffer := rest\<rparr>)"
  using assms by (simp add: handle_read_def getline_split Let_def)

lemma do_read_line:
  assumes "CHR 0x0A \<notin> set line" and "read_buffer s = line @ CRLF @ rest" and "\<not> stopped s"
  shows "do_read on_data s =
           (case on_data line (s\<lparr>read_buffer := rest\<rparr>) of
              Inl e \<Rightarrow> Some (Inl e) | Inr s' \<Rightarrow> do_read on_data s')"
  using assms contains_crlf_append [of line rest]
  by (subst do_read.simps) (simp add: handle_read_line [OF assms(1,2)])

lemma send_line_frame [simp]:
  "read_buffer (send_line l s) = read_buffer s" "stopped (send_line l s) = stopped s"
  "is_tls (send_line l s) = is_tls s" "handshakes (send_line l s) = handshakes s"
  by (simp_all add: send_line_def send_def)

lemma send_frame [simp]:
  "read_buffer (send l s) = read_buffer s" "stopped (send l s) = stopped s"
  "is_tls (send l s) = is_tls s" "handshakes (send l s) = handshakes s"
  by (simp_all add: send_def)

lemma start_tls_frame [simp]:
  "read_buffer (start_tls s) = read_buffer s" "stopped (start_tls s) = stopped s"
  by (simp_all add: start_tls_def)

lemma imap_starttls_command:
  assumes "imap_type (imap_Command_parse line) = CT_STARTTLS"
  shows "\<exists>s'. imap_process_command env line s = Inr s' \<and> read_buffer s' = read_buffer s \<and>
           stopped s' = stopped s \<and>
           (imap_state s = NOT_AUTHENTICATED \<and> \<not> is_tls s \<and> imap_ssl_context s \<longrightarrow>
              is_tls s' \<and> handshakes s' = handshakes s + 1)"
  using assms
  by (simp add: imap_process_command_def execute_def execute_base_def imap_handle_starttls_def
      Let_def start_tls_def)

lemma smtp_starttls_command:
  assumes "smtp_type (smtp_Command_parse line) = SC_STARTTLS"
  shows "read_buffer (smtp_process_command other line s) = read_buffer s \<and>
         stopped (smtp_process_command other line s) = stopped s \<and>
         (smtp_starttls_available s \<and> \<not> is_tls s \<and> smtp_ssl_context s \<longrightarrow>
            is_tls (smtp_process_command other line s) \<and>
            handshakes (smtp_process_command other line s) = handshakes s + 1)"
  using assms
  by (simp add: smtp_process_command_def smtp_handle_starttls_def Let_def start_tls_def)

lemma pop3_stls_command:
  assumes "pop3_type (pop3_Command_parse line) = STLS"
  shows "\<exists>s'. pop3_process_command other line s = Inr s' \<and> read_buffer s' = read_buffer s \<and>
           stopped s' = stopped s \<and>
           (pop3_state s = AUTHORIZATION \<and> pop3_starttls_available s \<and> \<not> is_tls s \<and>
            pop3_ssl_context s \<longrightarrow> is_tls s' \<and> handshakes s' = handshakes s + 1)"
  using assms
  by (simp add: pop3_process_command_def pop3_execute_def handle_stls_def Let_def start_tls_def)


lemma c1_parse:
  "imap_Command_parse ''a STARTTLS'' =
     \<lparr>imap_type = CT_STARTTLS, imap_tag = ''a'', imap_name = ''STARTTLS'', imap_arguments = []\<rparr>"
  "imap_Command_parse ''b NOOP'' =
     \<lparr>imap_type = CT_NOOP, imap_tag = ''b'', imap_name = ''NOOP'', imap_arguments = []\<rparr>"
  by (simp_all add: imap_Command_parse_def parse_command_def read_token_def getline_ws_def
      isspace_def toupper_def imap_string_to_type_def)

lemma c1_parse_smtp: "smtp_type (smtp_Command_parse ''STARTTLS'') = SC_STARTTLS"
  by (simp add: smtp_Command_parse_def smtp_split_name_def find_first_of_def toupper_def
      smtp_string_to_type_def)

lemma c1_parse_pop3: "pop3_type (pop3_Command_parse ''STLS'') = STLS"
  by (simp add: pop3_Command_parse_def read_token_def isspace_def toupper_def
      pop3_string_to_type_def Let_def)

text \<open>
  C1 as stated fails. The client sends \<open>a STARTTLS\<close> and \<open>b NOOP\<close> in one write. The read
  loop answers the first line, starts the TLS handshake, and then finds the second line
  still in the buffer: NOOP is executed and answered.
\<close>

theorem C1_counterexample:
  "do_read (imap_process_command c4_env) c1_session =
     Some (Inr (c1_session\<lparr>read_buffer := [], is_tls := True, handshakes := 1,
       sent := [''a OK Begin TLS negotiation'' @ CRLF, ''b OK NOOP completed'' @ CRLF]\<rparr>))"
proof -
  let ?f = "imap_process_command c4_env"
  let ?s1 = "c1_session\<lparr>read_buffer := ''b NOOP'' @ CRLF, is_tls := True, handshakes := 1,
       sent := [''a OK Begin TLS negotiation'' @ CRLF]\<rparr>"
  let ?s2 = "c1_session\<lparr>read_buffer := [], is_tls := True, handshakes := 1,
       sent := [''a OK Begin TLS negotiation'' @ CRLF, ''b OK NOOP completed'' @ CRLF]\<rparr>"
  have p1: "?f ''a STARTTLS'' (c1_session\<lparr>read_buffer := ''b NOOP'' @ CRLF\<rparr>) = Inr ?s1"
    by (simp add: imap_process_command_def c1_parse execute_def execute_base_def
        imap_handle_starttls_def c1_session_def start_tls_def send_line_def send_def imap_ok_def)
  have p2: "?f ''b NOOP'' (?s1\<lparr>read_buffer := []\<rparr>) = Inr ?s2"
    by (simp add: imap_process_command_def c1_parse execute_def execute_base_def
        imap_handle_noop_def c1_session_def send_line_def send_def imap_ok_def)
  have rb1: "read_buffer c1_session = ''a STARTTLS'' @ CRLF @ ''b NOOP'' @ CRLF"
    "\<not> stopped c1_session"
    by (simp_all add: c1_session_def)
  have rb2: "read_buffer ?s1 = ''b NOOP'' @ CRLF @ []" "\<not> stopped ?s1"
    by (simp_all add: c1_session_def)
  have n1: "CHR 0x0A \<notin> set ''a STARTTLS''" and n2: "CHR 0x0A \<notin> set ''b NOOP''"
    by simp_all
  have d1: "do_read ?f c1_session = do_read ?f ?s1"
    using do_read_line [OF n1 rb1, of ?f] by (simp only: p1 sum.case)
  have d2: "do_read ?f ?s1 = do_read ?f ?s2"
    using do_read_line [OF n2 rb2, of ?f] by (simp only: p2 sum.case)
  have d3: "do_read ?f ?s2 = Some (Inr ?s2)"
    by (subst do_read.simps) simp
  show ?thesis by (simp only: d1 d2 d3)
qed

text \<open>
  C1 (amended). The upgrade to TLS leaves the input buffer as it is. When a STARTTLS or STLS
  line is followed by further bytes in the buffer of a session that takes the line as a
  command, the read handler passes the line to the protocol, the handler does not touch
  the buffer, and the session continues (with the TLS flag set and a handshake started when
  the upgrade is accepted) with exactly those bytes buffered. The read loop then goes on
  from them: a complete line among them is taken out of the buffer and handed to the
  protocol as the next input line.
\<close>

theorem C1_starttls_amended:
  "read_buffer (start_tls s) = read_buffer s \<and>
   (CHR 0x0A \<notin> set li \<and> imap_type (imap_Command_parse li) = CT_STARTTLS \<and>
    read_buffer si = li @ CRLF @ resti \<and> \<not> stopped si \<longrightarrow>
      (\<exists>s1. handle_read (imap_process_command env) si = Inr s1 \<and>
            read_buffer s1 = resti \<and> \<not> stopped s1 \<and>
            (imap_state si = NOT_AUTHENTICATED \<and> \<not> is_tls si \<and> imap_ssl_context si \<longrightarrow>
               is_tls s1 \<and> handshakes s1 = handshakes si + 1) \<and>
            do_read (imap_process_command env) si = do_read (imap_process_command env) s1)) \<and>
   (CHR 0x0A \<notin> set ls \<and> smtp_type (smtp_Command_parse ls) = SC_STARTTLS \<and>
    smtp_state ss \<noteq> DATA \<and> auth_state ss \<notin> {PLAIN_WAITING, LOGIN_WAITING_USERNAME, LOGIN_WAITING_PASSWORD} \<and>
    read_buffer ss = ls @ CRLF @ rests \<and> \<not> stopped ss \<longrightarrow>
      (\<exists>s1. handle_read (\<lambda>l t. Inr (smtp_on_data dm ar other t l)) ss = Inr s1 \<and>
            read_buffer s1 = rests \<and> \<not> stopped s1 \<and>
            (smtp_starttls_available ss \<and> \<not> is_tls ss \<and> smtp_ssl_context ss \<longrightarrow>
               is_tls s1 \<and> handshakes s1 = handshakes ss + 1) \<and>
            do_read (\<lambda>l t. Inr (smtp_on_data dm ar other t l)) ss =
              do_read (\<lambda>l t. Inr (smtp_on_data dm ar other t l)) s1)) \<and>
   (CHR 0x0A \<notin> set lp \<and> pop3_type (pop3_Command_parse lp) = STLS \<and>
    read_buffer sp = lp @ CRLF @ restp \<and> \<not> stopped sp \<longrightarrow>
      (\<exists>s1. handle_read (pop3_process_command otherp) sp = Inr s1 \<and>
            read_buffer s1 = restp \<and> \<not> stopped s1 \<and>
            (pop3_state sp = AUTHORIZATION \<and> pop3_starttls_available sp \<and> \<not> is_tls sp \<and>
             pop3_ssl_context sp \<longrightarrow> is_tls s1 \<and> handshakes s1 = handshakes sp + 1) \<and>
            do_read (pop3_process_command otherp) sp = do_read (pop3_process_command otherp) s1)) \<and>
   (\<forall>l2 r2. CHR 0x0A \<notin> set l2 \<and> read_buffer t = l2 @ CRLF @ r2 \<and> \<not> stopped t \<longrightarrow>
      handle_read on_data t = on_data l2 (t\<lparr>read_buffer := r2\<rparr>) \<and>
      do_read on_data t =
        (case on_data l2 (t\<lparr>read_buffer := r2\<rparr>) of
           Inl e \<Rightarrow> Some (Inl e) | Inr t' \<Rightarrow> do_read on_data t'))"
proof -
  have a: "read_buffer (start_tls s) = read_buffer s" by simp
  have e: "\<forall>l2 r2. CHR 0x0A \<notin> set l2 \<and> read_buffer t = l2 @ CRLF @ r2 \<and> \<not> stopped t \<longrightarrow>
      handle_read on_data t = on_data l2 (t\<lparr>read_buffer := r2\<rparr>) \<and>
      do_read on_data t =
        (case on_data l2 (t\<lparr>read_buffer := r2\<rparr>) of
           Inl e \<Rightarrow> Some (Inl e) | Inr t' \<Rightarrow> do_read on_data t')"
    using handle_read_line [of _ t _ on_data] do_read_line [of _ t _ on_data] by blast
  have b: "\<exists>s1. handle_read (imap_process_command env) si = Inr s1 \<and>
            read_buffer s1 = resti \<and> \<not> stopped s1 \<and>
            (imap_state si = NOT_AUTHENTICATED \<and> \<not> is_tls si \<and> imap_ssl_context si \<longrightarrow>
               is_tls s1 \<and> handshakes s1 = handshakes si + 1) \<and>
            do_read (imap_process_command env) si = do_read (imap_process_command env) s1"
    if h: "CHR 0x0A \<notin> set li" "imap_type (imap_Command_parse li) = CT_STARTTLS"
      "read_buffer si = li @ CRLF @ resti" "\<not> stopped si"
  proof -
    from imap_starttls_command [OF h(2), of env "si\<lparr>read_buffer := resti\<rparr>"]
    obtain s1 where s1: "imap_process_command env li (si\<lparr>read_buffer := resti\<rparr>) = Inr s1"
      "read_buffer s1 = resti" "stopped s1 = stopped si"
      "imap_state si = NOT_AUTHENTICATED \<and> \<not> is_tls si \<and> imap_ssl_context si \<longrightarrow>
         is_tls s1 \<and> handshakes s1 = handshakes si + 1"
      by auto
    have "handle_read (imap_process_command env) si = Inr s1"
      using handle_read_line [OF h(1) h(3)] s1(1) by simp
    moreover have "do_read (imap_process_command env) si = do_read (imap_process_command env) s1"
      using do_read_line [OF h(1) h(3) h(4)] s1(1) by simp
    ultimately show ?thesis using s1 h(4) by blast
  qed
  have c: "\<exists>s1. handle_read (\<lambda>l t. Inr (smtp_on_data dm ar other t l)) ss = Inr s1 \<and>
            read_buffer s1 = rests \<and> \<not> stopped s1 \<and>
            (smtp_starttls_available ss \<and> \<not> is_tls ss \<and> smtp_ssl_context ss \<longrightarrow>
               is_tls s1 \<and> handshakes s1 = handshakes ss + 1) \<and>
            do_read (\<lambda>l t. Inr (smtp_on_data dm ar other t l)) ss =
              do_read (\<lambda>l t. Inr (smtp_on_data dm ar other t l)) s1"
    if h: "CHR 0x0A \<notin> set ls" "smtp_type (smtp_Command_parse ls) = SC_STARTTLS"
      "smtp_state ss \<noteq> DATA"
      "auth_state ss \<notin> {PLAIN_WAITING, LOGIN_WAITING_USERNAME, LOGIN_WAITING_PASSWORD}"
      "read_buffer ss = ls @ CRLF @ rests" "\<not> stopped ss"
  proof -
    let ?t = "ss\<lparr>read_buffer := rests\<rparr>"
    let ?s1 = "smtp_process_command other ls ?t"
    have on: "smtp_on_data dm ar other ?t ls = ?s1"
      using h(3,4) by (simp add: smtp_on_data_def)
    have fr: "read_buffer ?s1 = rests" "stopped ?s1 = stopped ss"
      "smtp_starttls_available ss \<and> \<not> is_tls ss \<and> smtp_ssl_context ss \<longrightarrow>
         is_tls ?s1 \<and> handshakes ?s1 = handshakes ss + 1"
      using smtp_starttls_command [OF h(2), of other ?t] by simp_all
    have "handle_read (\<lambda>l t. Inr (smtp_on_data dm ar other t l)) ss = Inr ?s1"
      using handle_read_line [OF h(1) h(5), of "\<lambda>l t. Inr (smtp_on_data dm ar other t l)"] on
      by simp
    moreover have "do_read (\<lambda>l t. Inr (smtp_on_data dm ar other t l)) ss =
        do_read (\<lambda>l t. Inr (smtp_on_data dm ar other t l)) ?s1"
      using do_read_line [OF h(1) h(5) h(6), of "\<lambda>l t. Inr (smtp_on_data dm ar other t l)"] on
      by simp
    ultimately show ?thesis using fr h(6) by blast
  qed
  have d: "\<exists>s1. handle_read (pop3_process_command otherp) sp = Inr s1 \<and>
            read_buffer s1 = restp \<and> \<not> stopped s1 \<and>
            (pop3_state sp = AUTHORIZATION \<and> pop3_starttls_available sp \<and> \<not> is_tls sp \<and>
             pop3_ssl_context sp \<longrightarrow> is_tls s1 \<and> handshakes s1 = handshakes sp + 1) \<and>
            do_read (pop3_process_command otherp) sp = do_read (pop3_process_command otherp) s1"
    if h: "CHR 0x0A \<notin> set lp" "pop3_type (pop3_Command_parse lp) = STLS"
      "read_buffer sp = lp @ CRLF @ restp" "\<not> stopped sp"
  proof -
    from pop3_stls_command [OF h(2), of otherp "sp\<lparr>read_buffer := restp\<rparr>"]
    obtain s1 where s1: "pop3_process_command otherp lp (sp\<lparr>read_buffer := restp\<rparr>) = Inr s1"
      "read_buffer s1 = restp" "stopped s1 = stopped sp"
      "pop3_state sp = AUTHORIZATION \<and> pop3_starttls_available sp \<and> \<not> is_tls sp \<and>
         pop3_ssl_context sp \<longrightarrow> is_tls s1 \<and> handshakes s1 = handshakes sp + 1"
      by auto
    have "handle_read (pop3_process_command otherp) sp = Inr s1"
      using handle_read_line [OF h(1) h(3)] s1(1) by simp
    moreover have "do_read (pop3_process_command otherp) sp = do_read (pop3_process_command otherp) s1"
      using do_read_line [OF h(1) h(3) h(4)] s1(1) by simp
    ultimately show ?thesis using s1 h(4) by blast
  qed
  show ?thesis using a b c d e by blast
qed

lemma c1_smtp_run:
  "do_read (\<lambda>l t. Inr (smtp_on_data (\<lambda>e d. True) (\<lambda>t l. t) (\<lambda>t c. ([], t)) t l)) c1_smtp_session =
     Some (Inr (c1_smtp_session\<lparr>read_buffer := [], is_tls := True, handshakes := 1,
       sent := [''220 Ready to start TLS'' @ CRLF, ''250 OK'' @ CRLF], smtp_state := CONNECTED\<rparr>))"
proof -
  let ?f = "\<lambda>l t. Inr (smtp_on_data (\<lambda>e d. True) (\<lambda>t l. t) (\<lambda>t c. ([], t)) t l) ::
      cxx_exception + smtp_session"
  let ?s1 = "c1_smtp_session\<lparr>read_buffer := ''NOOP'' @ CRLF, is_tls := True, handshakes := 1,
       sent := [''220 Ready to start TLS'' @ CRLF], smtp_state := CONNECTED\<rparr>"
  let ?s2 = "c1_smtp_session\<lparr>read_buffer := [], is_tls := True, handshakes := 1,
       sent := [''220 Ready to start TLS'' @ CRLF, ''250 OK'' @ CRLF], smtp_state := CONNECTED\<rparr>"
  have pn: "smtp_type (smtp_Command_parse ''NOOP'') = SC_NOOP"
    by (simp add: smtp_Command_parse_def smtp_split_name_def find_first_of_def toupper_def
        smtp_string_to_type_def)
  have p1: "?f ''STARTTLS'' (c1_smtp_session\<lparr>read_buffer := ''NOOP'' @ CRLF\<rparr>) = Inr ?s1"
    by (simp add: smtp_on_data_def smtp_process_command_def c1_parse_smtp smtp_handle_starttls_def
        c1_smtp_session_def start_tls_def send_line_def send_def reply_make_def to_string.simps
        digit_char_def envelope_clear_def Let_def)
  have p2: "?f ''NOOP'' (?s1\<lparr>read_buffer := []\<rparr>) = Inr ?s2"
    by (simp add: smtp_on_data_def smtp_process_command_def pn smtp_handle_noop_def
        c1_smtp_session_def send_line_def send_def reply_make_def to_string.simps
        digit_char_def Let_def)
  have rb1: "read_buffer c1_smtp_session = ''STARTTLS'' @ CRLF @ ''NOOP'' @ CRLF"
    "\<not> stopped c1_smtp_session"
    by (simp_all add: c1_smtp_session_def)
  have rb2: "read_buffer ?s1 = ''NOOP'' @ CRLF @ []" "\<not> stopped ?s1"
    by (simp_all add: c1_smtp_session_def)
  have n1: "CHR 0x0A \<notin> set ''STARTTLS''" and n2: "CHR 0x0A \<notin> set ''NOOP''"
    by simp_all
  have d1: "do_read ?f c1_smtp_session = do_read ?f ?s1"
    using do_read_line [OF n1 rb1, of ?f] by (simp only: p1 sum.case)
  have d2: "do_read ?f ?s1 = do_read ?f ?s2"
    using do_read_line [OF n2 rb2, of ?f] by (simp only: p2 sum.case)
  have d3: "do_read ?f ?s2 = Some (Inr ?s2)"
    by (subst do_read.simps) simp
  show ?thesis by (simp only: d1 d2 d3)
qed

lemma c1_pop3_run:
  "do_read (pop3_process_command (\<lambda>t c. Inr ([], t))) c1_pop3_session =
     Some (Inr (c1_pop3_session\<lparr>read_buffer := [], is_tls := True, handshakes := 1,
       sent := [''+OK Begin TLS negotiation'' @ CRLF, ''-ERR Not authenticated'' @ CRLF]\<rparr>))"
proof -
  let ?f = "pop3_process_command (\<lambda>t c. Inr ([], t))"
  let ?s1 = "c1_pop3_session\<lparr>read_buffer := ''NOOP'' @ CRLF, is_tls := True, handshakes := 1,
       sent := [''+OK Begin TLS negotiation'' @ CRLF]\<rparr>"
  let ?s2 = "c1_pop3_session\<lparr>read_buffer := [], is_tls := True, handshakes := 1,
       sent := [''+OK Begin TLS negotiation'' @ CRLF, ''-ERR Not authenticated'' @ CRLF]\<rparr>"
  have pn: "pop3_type (pop3_Command_parse ''NOOP'') = NOOP"
    by (simp add: pop3_Command_parse_def read_token_def isspace_def toupper_def
        pop3_string_to_type_def Let_def)
  have p1: "?f ''STLS'' (c1_pop3_session\<lparr>read_buffer := ''NOOP'' @ CRLF\<rparr>) = Inr ?s1"
    by (simp add: pop3_process_command_def c1_parse_pop3 pop3_execute_def handle_stls_def
        c1_pop3_session_def start_tls_def send_line_def send_def response_ok_def Let_def)
  have p2: "?f ''NOOP'' (?s1\<lparr>read_buffer := []\<rparr>) = Inr ?s2"
    by (simp add: pop3_process_command_def pn pop3_execute_def pop3_handle_noop_def
        c1_pop3_session_def send_line_def send_def response_err_def Let_def)
  have rb1: "read_buffer c1_pop3_session = ''STLS'' @ CRLF @ ''NOOP'' @ CRLF"
    "\<not> stopped c1_pop3_session"
    by (simp_all add: c1_pop3_session_def)
  have rb2: "read_buffer ?s1 = ''NOOP'' @ CRLF @ []" "\<not> stopped ?s1"
    by (simp_all add: c1_pop3_session_def)
  have n1: "CHR 0x0A \<notin> set ''STLS''" and n2: "CHR 0x0A \<notin> set ''NOOP''"
    by simp_all
  have d1: "do_read ?f c1_pop3_session = do_read ?f ?s1"
    using do_read_line [OF n1 rb1, of ?f] by (simp only: p1 sum.case)
  have d2: "do_read ?f ?s1 = do_read ?f ?s2"
    using do_read_line [OF n2 rb2, of ?f] by (simp only: p2 sum.case)
  have d3: "do_read ?f ?s2 = Some (Inr ?s2)"
    by (subst do_read.simps) simp
  show ?thesis by (simp only: d1 d2 d3)
qed

theorem C1_starttls_amended_witness:
  "do_read (\<lambda>l t. Inr (smtp_on_data (\<lambda>e d. True) (\<lambda>t l. t) (\<lambda>t c. ([], t)) t l)) c1_smtp_session =
     Some (Inr (c1_smtp_session\<lparr>read_buffer := [], is_tls := True, handshakes := 1,
       sent := [''220 Ready to start TLS'' @ CRLF, ''250 OK'' @ CRLF], smtp_state := CONNECTED\<rparr>)) \<and>
   do_read (pop3_process_command (\<lambda>t c. Inr ([], t))) c1_pop3_session =
     Some (Inr (c1_pop3_session\<lparr>read_buffer := [], is_tls := True, handshakes := 1,
       sent := [''+OK Begin TLS negotiation'' @ CRLF, ''-ERR Not authenticated'' @ CRLF]\<rparr>)) \<and>
   (\<exists>s1. handle_read (imap_process_command c4_env) c1_session = Inr s1 \<and>
         read_buffer s1 = ''b NOOP'' @ CRLF \<and> is_tls s1 \<and> handshakes s1 = 1) \<and>
   (\<exists>s1. handle_read (\<lambda>l t. Inr (smtp_on_data (\<lambda>e d. True) (\<lambda>t l. t) (\<lambda>t c. ([], t)) t l))
            c1_smtp_session = Inr s1 \<and>
         read_buffer s1 = ''NOOP'' @ CRLF \<and> is_tls s1 \<and> handshakes s1 = 1) \<and>
   (\<exists>s1. handle_read (pop3_process_command (\<lambda>t c. Inr ([], t))) c1_pop3_session = Inr s1 \<and>
         read_buffer s1 = ''NOOP'' @ CRLF \<and> is_tls s1 \<and> handshakes s1 = 1)"
proof -
  note t = C1_starttls_amended [where li = "''a STARTTLS''" and si = c1_session
      and resti = "''b NOOP'' @ CRLF" and env = c4_env
      and ls = "''STARTTLS''" and ss = c1_smtp_session and rests = "''NOOP'' @ CRLF"
      and dm = "\<lambda>e d. True" and ar = "\<lambda>t l. t" and other = "\<lambda>t c. ([], t)"
      and lp = "''STLS''" and sp = c1_pop3_session and restp = "''NOOP'' @ CRLF"
      and otherp = "\<lambda>t c. Inr ([], t)"]
  have i: "CHR 0x0A \<notin> set ''a STARTTLS'' \<and> imap_type (imap_Command_parse ''a STARTTLS'') = CT_STARTTLS \<and>
    read_buffer c1_session = ''a STARTTLS'' @ CRLF @ ''b NOOP'' @ CRLF \<and> \<not> stopped c1_session \<and>
    imap_state c1_session = NOT_AUTHENTICATED \<and> \<not> is_tls c1_session \<and>
    imap_ssl_context c1_session \<and> handshakes c1_session = 0"
    by (simp add: c1_parse c1_session_def)
  have m: "CHR 0x0A \<notin> set ''STARTTLS'' \<and> smtp_type (smtp_Command_parse ''STARTTLS'') = SC_STARTTLS \<and>
    smtp_state c1_smtp_session \<noteq> DATA \<and> auth_state c1_smtp_session \<notin> {PLAIN_WAITING, LOGIN_WAITING_USERNAME, LOGIN_WAITING_PASSWORD} \<and>
    read_buffer c1_smtp_session = ''STARTTLS'' @ CRLF @ ''NOOP'' @ CRLF \<and>
    \<not> stopped c1_smtp_session \<and> smtp_starttls_available c1_smtp_session \<and>
    \<not> is_tls c1_smtp_session \<and> smtp_ssl_context c1_smtp_session \<and> handshakes c1_smtp_session = 0"
    by (simp add: c1_parse_smtp c1_smtp_session_def)
  have p: "CHR 0x0A \<notin> set ''STLS'' \<and> pop3_type (pop3_Command_parse ''STLS'') = STLS \<and>
    read_buffer c1_pop3_session = ''STLS'' @ CRLF @ ''NOOP'' @ CRLF \<and> \<not> stopped c1_pop3_session \<and>
    pop3_state c1_pop3_session = AUTHORIZATION \<and> pop3_starttls_available c1_pop3_session \<and>
    \<not> is_tls c1_pop3_session \<and> pop3_ssl_context c1_pop3_session \<and> handshakes c1_pop3_session = 0"
    by (simp add: c1_parse_pop3 c1_pop3_session_def)
  from t i have "\<exists>s1. handle_read (imap_process_command c4_env) c1_session = Inr s1 \<and>
         read_buffer s1 = ''b NOOP'' @ CRLF \<and> is_tls s1 \<and> handshakes s1 = 1"
    by (metis add_0 )
  moreover from t m have "\<exists>s1. handle_read (\<lambda>l t. Inr (smtp_on_data (\<lambda>e d. True) (\<lambda>t l. t) (\<lambda>t c. ([], t)) t l))
            c1_smtp_session = Inr s1 \<and>
         read_buffer s1 = ''NOOP'' @ CRLF \<and> is_tls s1 \<and> handshakes s1 = 1"
    by (metis add_0)
  moreover from t p have "\<exists>s1. handle_read (pop3_process_command (\<lambda>t c. Inr ([], t))) c1_pop3_session = Inr s1 \<and>
         read_buffer s1 = ''NOOP'' @ CRLF \<and> is_tls s1 \<and> handshakes s1 = 1"
    by (metis add_0)
  ultimately show ?thesis using c1_smtp_run c1_pop3_run by blast
qed

subsection \<open>IMAP EXPUNGE\<close>

lemma parse_unique_id [simp]:
  "unique_id (parse_message_file b mbox f) = file_unique_id f"
  by (simp add: parse_message_file_def file_unique_id_def)

lemma load_fold_messages:
  "imap_messages (fst (foldl load_step (s, q) ms)) =
     imap_messages s @
     map (\<lambda>(j, m). \<lparr>sequence_number = q + of_nat j, uid = next_uid s + of_nat j,
                     cm_unique_id = unique_id m, cm_size = msg_bytes m,
                     cm_flags = maildir_to_imap_flags (flags m) \<union>
                                (if is_new m then {flag_Recent} else {}),
                     internal_date = timestamp m\<rparr>) (enumerate 0 ms)"
proof (induction ms arbitrary: s q)
  case Nil
  then show ?case by simp
next
  case (Cons m ms)
  let ?c = "\<lparr>sequence_number = q, uid = next_uid s, cm_unique_id = unique_id m,
             cm_size = msg_bytes m,
             cm_flags = maildir_to_imap_flags (flags m) \<union> (if is_new m then {flag_Recent} else {}),
             internal_date = timestamp m\<rparr>"
  obtain s' where st: "load_step (s, q) m = (s', q + 1)"
    and nu: "next_uid s' = next_uid s + 1"
    and ms: "imap_messages s' = imap_messages s @ [?c]"
    by (simp add: load_step_def Let_def)
  have e: "enumerate (Suc 0) ms = map (\<lambda>(j, x). (Suc j, x)) (enumerate 0 ms)"
    by (simp add: enumerate_eq_zip map_Suc_upt [symmetric] zip_map1 del: upt_Suc)
  have "imap_messages (fst (foldl load_step (s, q) (m # ms))) =
        imap_messages (fst (foldl load_step (s', q + 1) ms))"
    by (simp add: st)
  also have "\<dots> = imap_messages s' @
     map (\<lambda>(j, m). \<lparr>sequence_number = q + 1 + of_nat j, uid = next_uid s' + of_nat j,
                     cm_unique_id = unique_id m, cm_size = msg_bytes m,
                     cm_flags = maildir_to_imap_flags (flags m) \<union>
                                (if is_new m then {flag_Recent} else {}),
                     internal_date = timestamp m\<rparr>) (enumerate 0 ms)"
    by (rule Cons.IH)
  finally show ?case
    by (simp add: ms nu e case_prod_beta o_def add.assoc add.commute)
qed

lemma load_messages_cache:
  assumes "selected s = Some sel" and "maildir_open s"
  shows "imap_messages (load_messages srt s) =
     map (\<lambda>(j, m). \<lparr>sequence_number = 1 + of_nat j, uid = next_uid s + of_nat j,
                     cm_unique_id = unique_id m, cm_size = msg_bytes m,
                     cm_flags = maildir_to_imap_flags (flags m) \<union>
                                (if is_new m then {flag_Recent} else {}),
                     internal_date = timestamp m\<rparr>)
         (enumerate 0 (list_messages srt (store s) (sel_name sel)))"
  using assms
  by (simp add: load_messages_def Let_def update_mailbox_counts_def load_fold_messages
      split: option.splits)

lemma starts_with_own_id: "starts_with (fname f) (file_unique_id f)"
  by (auto simp: starts_with_def file_unique_id_def parse_message_file_def substr_def min_def
      split: option.splits)

lemma names_ok_same_id:
  assumes "maildir_names_ok d" and "f \<in> set (cur_dir d @ new_dir d)"
    and "g \<in> set (cur_dir d @ new_dir d)"
  shows "file_unique_id g = file_unique_id f \<longleftrightarrow> g = f"
    and "fname g = fname f \<longleftrightarrow> g = f"
proof -
  from assms have pre: "starts_with (fname g) (file_unique_id f) \<longrightarrow> g = f"
    unfolding maildir_names_ok_def by blast
  show "file_unique_id g = file_unique_id f \<longleftrightarrow> g = f"
  proof
    assume "file_unique_id g = file_unique_id f"
    with starts_with_own_id [of g] pre show "g = f" by simp
  qed simp
  from assms(1) have "inj_on fname (set (cur_dir d @ new_dir d))"
    unfolding maildir_names_ok_def by (simp only: distinct_map)
  with assms(2,3) show "fname g = fname f \<longleftrightarrow> g = f"
    by (auto dest: inj_onD)
qed

lemma names_ok_remove_ids:
  assumes "maildir_names_ok d"
  shows "maildir_names_ok (remove_ids R d)"
proof -
  let ?F = "filter (\<lambda>f. file_unique_id f \<notin> R)"
  have eq: "cur_dir (remove_ids R d) @ new_dir (remove_ids R d) = ?F (cur_dir d @ new_dir d)"
    by (simp add: remove_ids_def)
  have d1: "distinct (map fname (?F (cur_dir d @ new_dir d)))"
    using assms unfolding maildir_names_ok_def by (simp only: distinct_map_filter)
  have d2: "\<forall>f \<in> set (?F (cur_dir d @ new_dir d)). \<forall>g \<in> set (?F (cur_dir d @ new_dir d)).
         starts_with (fname g) (file_unique_id f) \<longrightarrow> g = f"
  proof (intro ballI impI)
    fix f g
    assume "f \<in> set (?F (cur_dir d @ new_dir d))" "g \<in> set (?F (cur_dir d @ new_dir d))"
      "starts_with (fname g) (file_unique_id f)"
    then have "f \<in> set (cur_dir d @ new_dir d)" "g \<in> set (cur_dir d @ new_dir d)"
      "starts_with (fname g) (file_unique_id f)"
      by auto
    with assms show "g = f" unfolding maildir_names_ok_def by blast
  qed
  show ?thesis
    unfolding maildir_names_ok_def eq using d1 d2 by (rule conjI)
qed

lemma remove_ids_twice: "remove_ids R' (remove_ids R d) = remove_ids (R \<union> R') d"
  by (simp add: remove_ids_def)

lemma remove_ids_empty: "remove_ids {} d = d"
  by (simp add: remove_ids_def)

lemma count_list_insort_key:
  "count_list (insort_key f a xs) x = count_list (a # xs) x"
  by (induction xs) auto

lemma count_list_sort_key: "count_list (sort_key f xs) x = count_list xs x"
  by (induction xs) (simp_all add: count_list_insort_key)

lemma std_sort_spec_sort_key: "std_sort_spec (sort_key timestamp)"
  by (simp add: std_sort_spec_def count_list_sort_key)

lemma distinct_count_list: "distinct xs \<longleftrightarrow> (\<forall>x. count_list xs x \<le> 1)"
proof (induction xs)
  case Nil
  then show ?case by simp
next
  case (Cons a xs)
  show ?case
  proof
    assume d: "distinct (a # xs)"
    then have "count_list xs a = 0" by (simp add: count_list_0_iff)
    moreover from d Cons.IH have "\<forall>x. count_list xs x \<le> 1" by simp
    ultimately show "\<forall>x. count_list (a # xs) x \<le> 1" by simp
  next
    assume c: "\<forall>x. count_list (a # xs) x \<le> 1"
    from c [rule_format, of a] have "count_list xs a = 0" by simp
    then have n: "a \<notin> set xs" by (simp add: count_list_0_iff)
    have "count_list xs x \<le> 1" for x
      using c [rule_format, of x] by (simp split: if_splits)
    then have "distinct xs" by (simp only: Cons.IH simp_thms)
    with n show "distinct (a # xs)" by simp
  qed
qed

lemma std_sort_rearranges:
  assumes "std_sort_spec srt"
  shows "set (srt xs) = set xs" and "distinct (srt xs) = distinct xs"
    and "sorted (map timestamp (srt xs))"
proof -
  from assms have c: "count_list (srt xs) x = count_list xs x" for x
    by (simp add: std_sort_spec_def)
  have "x \<in> set (srt xs) \<longleftrightarrow> x \<in> set xs" for x
    using c [of x] count_list_0_iff [of "srt xs" x] count_list_0_iff [of xs x] by simp
  then show "set (srt xs) = set xs" by blast
  show "distinct (srt xs) = distinct xs" by (simp only: distinct_count_list c)
  from assms show "sorted (map timestamp (srt xs))" by (simp add: std_sort_spec_def)
qed

lemma std_sort_unique:
  assumes spec: "std_sort_spec srt" and d: "distinct (map timestamp xs)"
  shows "srt xs = sort_key timestamp xs"
proof -
  from d have dx: "distinct xs" and inj: "inj_on timestamp (set xs)"
    by (simp_all only: distinct_map)
  have s1: "set (srt xs) = set xs" and d1: "distinct (srt xs)"
    using std_sort_rearranges(1,2) [OF spec, of xs] dx by simp_all
  have a: "sorted (map timestamp (srt xs))" by (rule std_sort_rearranges(3) [OF spec])
  have b: "distinct (map timestamp (srt xs))"
    using d1 inj by (simp only: distinct_map s1 simp_thms)
  have a': "sorted (map timestamp (sort_key timestamp xs))" by (rule sorted_sort_key)
  have b': "distinct (map timestamp (sort_key timestamp xs))"
    using dx inj by (simp only: distinct_map set_sort distinct_sort simp_thms)
  have e: "set (map timestamp (srt xs)) = set (map timestamp (sort_key timestamp xs))"
    by (simp only: set_map s1 set_sort)
  have m: "map timestamp (srt xs) = map timestamp (sort_key timestamp xs)"
    using a b a' b' e by (rule sorted_distinct_set_unique)
  have "inj_on timestamp (set (srt xs) \<union> set (sort_key timestamp xs))"
    using inj by (simp only: s1 set_sort Un_absorb)
  then show ?thesis using m by (simp only: inj_on_map_eq_map)
qed

lemma list_messages_sort_key:
  assumes "std_sort_spec srt" and "fs (get_mailbox_path name) = Some d"
    and "distinct (map mtime (cur_dir d @ new_dir d))"
  shows "list_messages srt fs name = list_messages (sort_key timestamp) fs name"
proof -
  let ?xs = "map (parse_message_file False name) (cur_dir d) @
             map (parse_message_file True name) (new_dir d)"
  have "map timestamp ?xs = map mtime (cur_dir d @ new_dir d)"
    by (simp add: o_def parse_message_file_def)
  with assms(3) have "distinct (map timestamp ?xs)" by (simp only:)
  with assms(1) have "srt ?xs = sort_key timestamp ?xs" by (rule std_sort_unique)
  with assms(2) show ?thesis by (simp add: list_messages_def)
qed

lemma distinct_mtime_remove_ids:
  assumes "distinct (map mtime (cur_dir d @ new_dir d))"
  shows "distinct (map mtime (cur_dir (remove_ids R d) @ new_dir (remove_ids R d)))"
proof -
  have "cur_dir (remove_ids R d) @ new_dir (remove_ids R d) =
        filter (\<lambda>f. file_unique_id f \<notin> R) (cur_dir d @ new_dir d)"
    by (simp add: remove_ids_def)
  with assms show ?thesis by (simp only: distinct_map_filter)
qed

lemma list_messages_remove_ids_sorted:
  assumes "fs (get_mailbox_path name) = Some d"
  shows "list_messages (sort_key timestamp) (fs(get_mailbox_path name \<mapsto> remove_ids R d)) name =
           filter (\<lambda>m. unique_id m \<notin> R) (list_messages (sort_key timestamp) fs name)"
  using assms
  by (simp add: list_messages_def remove_ids_def filter_sort filter_map o_def)

lemma list_messages_remove_ids:
  assumes spec: "std_sort_spec srt" and fs: "fs (get_mailbox_path name) = Some d"
    and dt: "distinct (map mtime (cur_dir d @ new_dir d))"
  shows "list_messages srt (fs(get_mailbox_path name \<mapsto> remove_ids R d)) name =
           filter (\<lambda>m. unique_id m \<notin> R) (list_messages srt fs name)"
proof -
  let ?fs' = "fs(get_mailbox_path name \<mapsto> remove_ids R d)"
  have p: "?fs' (get_mailbox_path name) = Some (remove_ids R d)" by simp
  have "list_messages srt ?fs' name = list_messages (sort_key timestamp) ?fs' name"
    by (rule list_messages_sort_key [of srt ?fs' name "remove_ids R d", OF spec p
          distinct_mtime_remove_ids [OF dt, of R]])
  also have "\<dots> = filter (\<lambda>m. unique_id m \<notin> R) (list_messages (sort_key timestamp) fs name)"
    using fs by (rule list_messages_remove_ids_sorted)
  also have "list_messages (sort_key timestamp) fs name = list_messages srt fs name"
    by (rule sym) (rule list_messages_sort_key [of srt fs name d, OF spec fs dt])
  finally show ?thesis .
qed

lemma find_unique:
  "x \<in> set xs \<Longrightarrow> P x \<Longrightarrow> (\<And>y. y \<in> set xs \<Longrightarrow> P y \<Longrightarrow> y = x) \<Longrightarrow> find P xs = Some x"
proof (induction xs)
  case Nil
  then show ?case by simp
next
  case (Cons a xs)
  show ?case
  proof (cases "P a")
    case True
    then have "a = x" using Cons.prems(3) [of a] by simp
    with True show ?thesis by simp
  next
    case False
    with Cons.prems(1,2) have "x \<in> set xs" by auto
    then have "find P xs = Some x" using Cons.prems(2,3) by (intro Cons.IH) simp_all
    with False show ?thesis by simp
  qed
qed

lemma find_none: "(\<And>y. y \<in> set xs \<Longrightarrow> \<not> P y) \<Longrightarrow> find P xs = None"
  by (simp add: find_None_iff)

lemma delete_message_present:
  assumes fs: "fs (get_mailbox_path name) = Some d" and ok: "maildir_names_ok d"
    and f: "f \<in> set (cur_dir d @ new_dir d)"
  shows "delete_message fs (file_unique_id f) name =
           Inr (True, fs(get_mailbox_path name \<mapsto> remove_ids {file_unique_id f} d))"
proof -
  let ?P = "\<lambda>g. starts_with (fname g) (file_unique_id f)"
  have only: "g = f" if "g \<in> set (cur_dir d @ new_dir d)" "?P g" for g
    using ok f that unfolding maildir_names_ok_def by blast
  have dist: "distinct (map fname (cur_dir d @ new_dir d))"
    using ok unfolding maildir_names_ok_def by blast
  have id_name: "(fname g \<noteq> fname f) = (file_unique_id g \<noteq> file_unique_id f)"
    if "g \<in> set (cur_dir d @ new_dir d)" for g
    using names_ok_same_id [OF ok f that] by simp
  have own: "?P f" by (rule starts_with_own_id)
  show ?thesis
  proof (cases "f \<in> set (cur_dir d)")
    case True
    have fnd: "find ?P (cur_dir d) = Some f"
    proof (rule find_unique [of f "cur_dir d" ?P, OF True own])
      fix y assume "y \<in> set (cur_dir d)" "?P y"
      then show "y = f" by (intro only) simp_all
    qed
    have notnew: "f \<notin> set (new_dir d)"
      using True dist by (auto simp: distinct_map)
    have c: "filter (\<lambda>g. fname g \<noteq> fname f) (cur_dir d) =
             filter (\<lambda>g. file_unique_id g \<noteq> file_unique_id f) (cur_dir d)"
      by (rule filter_cong [OF refl]) (simp add: id_name)
    have "file_unique_id g \<noteq> file_unique_id f" if g: "g \<in> set (new_dir d)" for g
    proof
      assume "file_unique_id g = file_unique_id f"
      moreover from g have "g \<in> set (cur_dir d @ new_dir d)" by simp
      ultimately have "g = f" using names_ok_same_id(1) [OF ok f] by blast
      with g notnew show False by simp
    qed
    then have n: "filter (\<lambda>g. file_unique_id g \<noteq> file_unique_id f) (new_dir d) = new_dir d"
      by (simp add: filter_id_conv)
    have r: "remove_ids {file_unique_id f} d =
             d\<lparr>cur_dir := filter (\<lambda>g. fname g \<noteq> fname f) (cur_dir d)\<rparr>"
      by (simp add: remove_ids_def c n)
    show ?thesis
      by (simp add: delete_message_def get_message_def fs fnd remove_file_def
          parse_message_file_def r)
  next
    case False
    with f have fn: "f \<in> set (new_dir d)" by simp
    have none: "find ?P (cur_dir d) = None"
    proof (rule find_none [of "cur_dir d" ?P])
      fix y assume y: "y \<in> set (cur_dir d)"
      show "\<not> ?P y"
      proof
        assume "?P y"
        with y have "y = f" by (intro only) simp_all
        with y False show False by simp
      qed
    qed
    have fnd: "find ?P (new_dir d) = Some f"
    proof (rule find_unique [of f "new_dir d" ?P, OF fn own])
      fix y assume "y \<in> set (new_dir d)" "?P y"
      then show "y = f" by (intro only) simp_all
    qed
    have n: "filter (\<lambda>g. fname g \<noteq> fname f) (new_dir d) =
             filter (\<lambda>g. file_unique_id g \<noteq> file_unique_id f) (new_dir d)"
      by (rule filter_cong [OF refl]) (simp add: id_name)
    have "file_unique_id g \<noteq> file_unique_id f" if g: "g \<in> set (cur_dir d)" for g
    proof
      assume "file_unique_id g = file_unique_id f"
      moreover from g have "g \<in> set (cur_dir d @ new_dir d)" by simp
      ultimately have "g = f" using names_ok_same_id(1) [OF ok f] by blast
      with g False show False by simp
    qed
    then have c: "filter (\<lambda>g. file_unique_id g \<noteq> file_unique_id f) (cur_dir d) = cur_dir d"
      by (simp add: filter_id_conv)
    have r: "remove_ids {file_unique_id f} d =
             d\<lparr>new_dir := filter (\<lambda>g. fname g \<noteq> fname f) (new_dir d)\<rparr>"
      by (simp add: remove_ids_def c n)
    show ?thesis
      by (simp add: delete_message_def get_message_def fs none fnd remove_file_def
          parse_message_file_def r)
  qed
qed

lemma expunge_loop_ok:
  assumes "fs (get_mailbox_path name) = Some d" and "maildir_names_ok d"
    and "distinct (map (\<lambda>i. cm_unique_id (msgs ! i)) idxs)"
    and "\<forall>i \<in> set idxs. cm_unique_id (msgs ! i) \<in> file_unique_id ` set (cur_dir d @ new_dir d)"
  shows "expunge_loop fs name msgs idxs =
           Inr (map (\<lambda>i. of_nat (i + 1)) idxs,
                fs(get_mailbox_path name \<mapsto>
                     remove_ids ((\<lambda>i. cm_unique_id (msgs ! i)) ` set idxs) d))"
  using assms
proof (induction idxs arbitrary: fs d)
  case Nil
  then show ?case by (simp add: remove_ids_empty map_upd_triv)
next
  case (Cons idx rest)
  let ?p = "get_mailbox_path name"
  let ?u = "cm_unique_id (msgs ! idx)"
  from Cons.prems(4) obtain f where f: "f \<in> set (cur_dir d @ new_dir d)"
    and u: "?u = file_unique_id f" by auto
  let ?d' = "remove_ids {?u} d"
  let ?fs' = "fs(?p \<mapsto> ?d')"
  have del: "delete_message fs ?u name = Inr (True, ?fs')"
    using delete_message_present [of fs name d f] Cons.prems(1,2) f u by simp
  have p1: "?fs' ?p = Some ?d'" by simp
  have p2: "maildir_names_ok ?d'" using Cons.prems(2) by (rule names_ok_remove_ids)
  have p3: "distinct (map (\<lambda>i. cm_unique_id (msgs ! i)) rest)"
    using Cons.prems(3) by simp
  have p4: "\<forall>i \<in> set rest. cm_unique_id (msgs ! i) \<in>
              file_unique_id ` set (cur_dir ?d' @ new_dir ?d')"
  proof
    fix i assume i: "i \<in> set rest"
    with Cons.prems(4) obtain g where g: "g \<in> set (cur_dir d @ new_dir d)"
      and gi: "cm_unique_id (msgs ! i) = file_unique_id g" by auto
    from Cons.prems(3) have "?u \<notin> (\<lambda>i. cm_unique_id (msgs ! i)) ` set rest" by simp
    moreover from i have "cm_unique_id (msgs ! i) \<in> (\<lambda>i. cm_unique_id (msgs ! i)) ` set rest"
      by (rule imageI)
    ultimately have "cm_unique_id (msgs ! i) \<noteq> ?u" by metis
    with g gi have "g \<in> set (cur_dir ?d' @ new_dir ?d')"
      by (auto simp: remove_ids_def)
    with gi show "cm_unique_id (msgs ! i) \<in> file_unique_id ` set (cur_dir ?d' @ new_dir ?d')"
      by blast
  qed
  have ih: "expunge_loop ?fs' name msgs rest =
      Inr (map (\<lambda>i. of_nat (i + 1)) rest,
           ?fs'(?p \<mapsto> remove_ids ((\<lambda>i. cm_unique_id (msgs ! i)) ` set rest) ?d'))"
    by (rule Cons.IH [of ?fs' ?d', OF p1 p2 p3 p4])
  have un: "{?u} \<union> (\<lambda>i. cm_unique_id (msgs ! i)) ` set rest =
            (\<lambda>i. cm_unique_id (msgs ! i)) ` set (idx # rest)"
    by auto
  show ?case
    by (simp only: expunge_loop.simps del ih sum.case prod.case remove_ids_twice un
        fun_upd_upd list.map)
qed

lemma list_messages_ids:
  assumes "std_sort_spec srt"
    and "fs (get_mailbox_path name) = Some d" and "maildir_names_ok d"
  shows "distinct (map unique_id (list_messages srt fs name))"
    and "set (map unique_id (list_messages srt fs name)) =
         file_unique_id ` set (cur_dir d @ new_dir d)"
proof -
  let ?xs = "map (parse_message_file False name) (cur_dir d) @
             map (parse_message_file True name) (new_dir d)"
  have lm: "list_messages srt fs name = srt ?xs"
    using assms(2) by (simp add: list_messages_def)
  note rr = std_sort_rearranges(1,2) [OF assms(1), of ?xs]
  have m: "map unique_id ?xs = map file_unique_id (cur_dir d @ new_dir d)"
    by (simp add: o_def)
  have "distinct (map fname (cur_dir d @ new_dir d))"
    using assms(3) unfolding maildir_names_ok_def by blast
  then have d0: "distinct (cur_dir d @ new_dir d)"
    by (simp only: distinct_map)
  have inj: "inj_on file_unique_id (set (cur_dir d @ new_dir d))"
  proof (rule inj_onI)
    fix f g
    assume "f \<in> set (cur_dir d @ new_dir d)" "g \<in> set (cur_dir d @ new_dir d)"
      "file_unique_id f = file_unique_id g"
    then show "f = g" using names_ok_same_id(1) [OF assms(3), of g f] by blast
  qed
  from d0 inj have "distinct (map file_unique_id (cur_dir d @ new_dir d))"
    by (simp only: distinct_map simp_thms)
  then have "distinct (map unique_id ?xs)" by (simp only: m)
  then have "distinct ?xs \<and> inj_on unique_id (set ?xs)" by (simp only: distinct_map)
  then have "distinct (map unique_id (srt ?xs))"
    by (simp only: distinct_map rr simp_thms)
  then show "distinct (map unique_id (list_messages srt fs name))" by (simp only: lm)
  have "set (map unique_id (srt ?xs)) = set (map unique_id ?xs)"
    by (simp only: set_map rr)
  then show "set (map unique_id (list_messages srt fs name)) =
             file_unique_id ` set (cur_dir d @ new_dir d)"
    by (simp only: lm m set_map)
qed

lemma filter_map_aligned:
  assumes "map f xs = map g ys"
    and "\<And>i. i < length xs \<Longrightarrow> P (xs ! i) = Q (ys ! i)"
  shows "map f (filter P xs) = map g (filter Q ys)"
  using assms
proof (induction xs arbitrary: ys)
  case Nil
  then show ?case by simp
next
  case (Cons x xs)
  from Cons.prems(1) obtain y ys' where ys: "ys = y # ys'" and fg: "f x = g y"
    and rest: "map f xs = map g ys'"
    by (cases ys) auto
  have h0: "P x = Q y" using Cons.prems(2) [of 0] ys by simp
  have hs: "P (xs ! i) = Q (ys' ! i)" if "i < length xs" for i
    using Cons.prems(2) [of "Suc i"] that ys by simp
  have ih: "map f (filter P xs) = map g (filter Q ys')"
    using rest hs by (rule Cons.IH)
  show ?case by (simp add: ys h0 fg ih)
qed

lemma filter_take_count:
  "i \<le> length xs \<Longrightarrow>
     length (filter P (take i xs)) + length (filter (\<lambda>j. \<not> P (xs ! j)) [0..<i]) = i"
proof (induction i)
  case 0
  then show ?case by simp
next
  case (Suc i)
  then have "i < length xs" by simp
  then have t: "take (Suc i) xs = take i xs @ [xs ! i]" by (rule take_Suc_conv_app_nth)
  from Suc have "length (filter P (take i xs)) + length (filter (\<lambda>j. \<not> P (xs ! j)) [0..<i]) = i"
    by simp
  then show ?case by (simp add: t)
qed

lemma filter_nth_position:
  assumes "i < length xs" and "P (xs ! i)"
  shows "length (filter P (take i xs)) < length (filter P xs)"
    and "filter P xs ! length (filter P (take i xs)) = xs ! i"
proof -
  have "xs = take i xs @ xs ! i # drop (Suc i) xs"
    using assms(1) by (rule id_take_nth_drop)
  then have "filter P xs = filter P (take i xs) @ xs ! i # filter P (drop (Suc i) xs)"
    using assms(2) by (metis filter.simps(2) filter_append)
  then show "length (filter P (take i xs)) < length (filter P xs)"
    and "filter P xs ! length (filter P (take i xs)) = xs ! i"
    by (simp_all add: nth_append)
qed

lemma index_image_set:
  "(\<lambda>i. f (xs ! i)) ` set (filter (\<lambda>i. P (xs ! i)) [0..<length xs]) = f ` {x \<in> set xs. P x}"
  by (auto simp: in_set_conv_nth image_iff)

lemma distinct_index_map:
  assumes "distinct (map f xs)" and "distinct is" and "\<And>i. i \<in> set is \<Longrightarrow> i < length xs"
  shows "distinct (map (\<lambda>i. f (xs ! i)) is)"
proof -
  have "inj_on (\<lambda>i. f (xs ! i)) (set is)"
  proof (rule inj_onI)
    fix i j assume i: "i \<in> set is" and j: "j \<in> set is" and e: "f (xs ! i) = f (xs ! j)"
    from i j assms(3) have b: "i < length (map f xs)" "j < length (map f xs)" by simp_all
    with e have "map f xs ! i = map f xs ! j" by simp
    with assms(1) b show "i = j" by (simp only: nth_eq_iff_index_eq)
  qed
  with assms(2) show ?thesis by (simp only: distinct_map simp_thms)
qed

lemma filter_less_upt: "i \<le> n \<Longrightarrow> filter (\<lambda>j. j < i) [0..<n] = [0..<i]"
proof (induction n)
  case 0
  then show ?case by simp
next
  case (Suc n)
  show ?case
  proof (cases "i = Suc n")
    case True
    then show ?thesis by (simp add: filter_id_conv)
  next
    case False
    with Suc.prems have "i \<le> n" by simp
    with Suc.IH show ?thesis by simp
  qed
qed

lemma expunge_result:
  assumes spec: "std_sort_spec srt"
    and sel: "selected s = Some sel" and op: "maildir_open s"
    and st: "store s (get_mailbox_path (sel_name sel)) = Some d"
    and ok: "maildir_names_ok d"
    and al: "map cm_unique_id (imap_messages s) =
             map unique_id (list_messages srt (store s) (sel_name sel))"
    and td: "to_delete = filter (\<lambda>i. flag_Deleted \<in> cm_flags (imap_messages s ! i))
                           [0..<length (imap_messages s)]"
    and R: "R = cm_unique_id ` {m \<in> set (imap_messages s). flag_Deleted \<in> cm_flags m}"
  shows "expunge_loop (store s) (sel_name sel) (imap_messages s) (rev to_delete) =
           Inr (map (\<lambda>i. of_nat (i + 1)) (rev to_delete),
                (store s)(get_mailbox_path (sel_name sel) \<mapsto> remove_ids R d))"
    and "expunge srt s =
           Inr (map (\<lambda>i. of_nat (i + 1)) to_delete,
                load_messages srt (s\<lparr>store := (store s)(get_mailbox_path (sel_name sel) \<mapsto>
                                              remove_ids R d)\<rparr>))"
proof -
  let ?msgs = "imap_messages s"
  let ?L = "list_messages srt (store s) (sel_name sel)"
  have dL: "distinct (map unique_id ?L)"
    and sL: "set (map unique_id ?L) = file_unique_id ` set (cur_dir d @ new_dir d)"
    using list_messages_ids [of srt "store s" "sel_name sel" d] spec st ok by blast+
  have dm: "distinct (map cm_unique_id ?msgs)" using dL by (simp only: al)
  have lt: "i < length ?msgs" if "i \<in> set (rev to_delete)" for i
    using that by (simp add: td)
  have a3: "distinct (map (\<lambda>i. cm_unique_id (?msgs ! i)) (rev to_delete))"
    by (rule distinct_index_map [OF dm _ lt]) (simp_all add: td)
  have a4: "\<forall>i \<in> set (rev to_delete).
      cm_unique_id (?msgs ! i) \<in> file_unique_id ` set (cur_dir d @ new_dir d)"
  proof
    fix i assume "i \<in> set (rev to_delete)"
    then have i: "i < length ?msgs" by (rule lt)
    then have "cm_unique_id (?msgs ! i) = map cm_unique_id ?msgs ! i" by simp
    also have "\<dots> \<in> set (map cm_unique_id ?msgs)"
      using i by (intro nth_mem) simp
    finally show "cm_unique_id (?msgs ! i) \<in> file_unique_id ` set (cur_dir d @ new_dir d)"
      by (simp only: al sL)
  qed
  have img: "(\<lambda>i. cm_unique_id (?msgs ! i)) ` set (rev to_delete) = R"
    unfolding td R set_rev by (rule index_image_set)
  from expunge_loop_ok [of "store s" "sel_name sel" d ?msgs "rev to_delete", OF st ok a3 a4]
  show loop: "expunge_loop (store s) (sel_name sel) ?msgs (rev to_delete) =
           Inr (map (\<lambda>i. of_nat (i + 1)) (rev to_delete),
                (store s)(get_mailbox_path (sel_name sel) \<mapsto> remove_ids R d))"
    by (simp only: img)
  show "expunge srt s =
           Inr (map (\<lambda>i. of_nat (i + 1)) to_delete,
                load_messages srt (s\<lparr>store := (store s)(get_mailbox_path (sel_name sel) \<mapsto>
                                              remove_ids R d)\<rparr>))"
    using loop by (simp add: expunge_def sel op Let_def td [symmetric] rev_map)
qed

lemma expunge_reload:
  assumes spec: "std_sort_spec srt"
    and sel: "selected s = Some sel" and op: "maildir_open s"
    and st: "store s (get_mailbox_path (sel_name sel)) = Some d"
    and dt: "distinct (map mtime (cur_dir d @ new_dir d))"
  shows "imap_messages (load_messages srt
           (s\<lparr>store := (store s)(get_mailbox_path (sel_name sel) \<mapsto> remove_ids R d)\<rparr>)) =
     map (\<lambda>(j, m). \<lparr>sequence_number = 1 + of_nat j, uid = next_uid s + of_nat j,
                     cm_unique_id = unique_id m, cm_size = msg_bytes m,
                     cm_flags = maildir_to_imap_flags (flags m) \<union>
                                (if is_new m then {flag_Recent} else {}),
                     internal_date = timestamp m\<rparr>)
         (enumerate 0 (filter (\<lambda>m. unique_id m \<notin> R)
                         (list_messages srt (store s) (sel_name sel))))"
proof -
  let ?s1 = "s\<lparr>store := (store s)(get_mailbox_path (sel_name sel) \<mapsto> remove_ids R d)\<rparr>"
  have "selected ?s1 = Some sel" "maildir_open ?s1" using sel op by simp_all
  from load_messages_cache [OF this, of srt] show ?thesis
    by (simp add: list_messages_remove_ids [of srt "store s" "sel_name sel" d R, OF spec st dt])
qed

text \<open>
  C2 (amended). In a session with a selected mailbox whose cache lists the files of the
  mailbox directory, whose files have pairwise different modification times (so that the
  order the sort gives them is determined), and whose file names are distinct with no name
  starting with another entry's unique id, EXPUNGE raises no exception, whatever sort
  satisfying \<open>std_sort_spec\<close> the listing uses; it visits the indices of the messages
  carrying \<open>\Deleted\<close> from the last to the first and removes exactly their files; the
  sequence numbers are returned, and the \<open>* n EXPUNGE\<close> responses written, in ascending
  order; after the reload the remaining messages are the old ones without the deleted, in
  the old order, so the message that was at index \<open>i\<close> is now at \<open>i\<close> minus the number of
  expunged indices below \<open>i\<close>, and the message at the new index \<open>j\<close> has sequence number
  \<open>j + 1\<close> and the UID \<open>next_uid + j\<close>: a fresh UID from the session's counter, not the
  UID it had.
\<close>

theorem C2_expunge_amended:
  assumes spec: "std_sort_spec srt"
    and sel: "selected s = Some sel" and op: "maildir_open s"
    and st: "store s (get_mailbox_path (sel_name sel)) = Some d"
    and ok: "maildir_names_ok d"
    and dt: "distinct (map mtime (cur_dir d @ new_dir d))"
    and al: "map cm_unique_id (imap_messages s) =
             map unique_id (list_messages srt (store s) (sel_name sel))"
    and len: "length (imap_messages s) < 2 ^ 32"
    and td: "to_delete = filter (\<lambda>i. flag_Deleted \<in> cm_flags (imap_messages s ! i))
                           [0..<length (imap_messages s)]"
    and R: "R = cm_unique_id ` {m \<in> set (imap_messages s). flag_Deleted \<in> cm_flags m}"
  shows "\<exists>s'. expunge srt s = Inr (map (\<lambda>i. of_nat (i + 1)) to_delete, s') \<and>
     expunge_loop (store s) (sel_name sel) (imap_messages s) (rev to_delete) =
       Inr (map (\<lambda>i. of_nat (i + 1)) (rev to_delete), store s') \<and>
     sorted_wrt (<) to_delete \<and>
     store s' = (store s)(get_mailbox_path (sel_name sel) \<mapsto> remove_ids R d) \<and>
     (imap_state s = SELECTED \<and> env_std_sort env = srt \<longrightarrow>
        handle_expunge env s cmd =
          Inr (map (\<lambda>i. untagged (to_string (i + 1) @ '' EXPUNGE'')) to_delete @
               [imap_ok (imap_tag cmd) ''EXPUNGE completed''], s')) \<and>
     map cm_unique_id (imap_messages s') =
       map cm_unique_id (filter (\<lambda>m. flag_Deleted \<notin> cm_flags m) (imap_messages s)) \<and>
     (\<forall>j < length (imap_messages s').
        sequence_number (imap_messages s' ! j) = of_nat (j + 1) \<and>
        uid (imap_messages s' ! j) = next_uid s + of_nat j) \<and>
     (\<forall>i < length (imap_messages s). flag_Deleted \<notin> cm_flags (imap_messages s ! i) \<longrightarrow>
        i - length (filter (\<lambda>j. j < i) to_delete) < length (imap_messages s') \<and>
        cm_unique_id (imap_messages s' ! (i - length (filter (\<lambda>j. j < i) to_delete))) =
          cm_unique_id (imap_messages s ! i))"
proof -
  let ?msgs = "imap_messages s"
  let ?L = "list_messages srt (store s) (sel_name sel)"
  let ?fs' = "(store s)(get_mailbox_path (sel_name sel) \<mapsto> remove_ids R d)"
  let ?s' = "load_messages srt (s\<lparr>store := ?fs'\<rparr>)"
  let ?keep = "\<lambda>m. flag_Deleted \<notin> cm_flags m"
  let ?L' = "filter (\<lambda>m. unique_id m \<notin> R) ?L"
  let ?F = "\<lambda>(j, m). \<lparr>sequence_number = 1 + of_nat j, uid = next_uid s + of_nat j,
                     cm_unique_id = unique_id m, cm_size = msg_bytes m,
                     cm_flags = maildir_to_imap_flags (flags m) \<union>
                                (if is_new m then {flag_Recent} else {}),
                     internal_date = timestamp m\<rparr>"
  note res = expunge_result [OF spec sel op st ok al td R]
  have c1: "expunge srt s = Inr (map (\<lambda>i. of_nat (i + 1)) to_delete, ?s')" by (rule res(2))
  have st': "store ?s' = ?fs'" by simp
  have c2: "expunge_loop (store s) (sel_name sel) ?msgs (rev to_delete) =
       Inr (map (\<lambda>i. of_nat (i + 1)) (rev to_delete), store ?s')"
    using res(1) by (simp only: st')
  have c3: "sorted_wrt (<) to_delete"
    unfolding td by (rule sorted_wrt_filter) simp
  have un: "unat (of_nat (i + 1) :: 32 word) = i + 1" if "i \<in> set to_delete" for i
  proof -
    from that have "i < length ?msgs" by (simp add: td)
    with len have "i + 1 < 2 ^ 32" by simp
    then show ?thesis by (simp only: unat_of_nat) simp
  qed
  have c5: "handle_expunge env s cmd =
          Inr (map (\<lambda>i. untagged (to_string (i + 1) @ '' EXPUNGE'')) to_delete @
               [imap_ok (imap_tag cmd) ''EXPUNGE completed''], ?s')"
    if "imap_state s = SELECTED \<and> env_std_sort env = srt"
  proof -
    have "map (\<lambda>seq. untagged (to_string (unat seq) @ '' EXPUNGE''))
            (map (\<lambda>i. of_nat (i + 1) :: 32 word) to_delete) =
          map (\<lambda>i. untagged (to_string (i + 1) @ '' EXPUNGE'')) to_delete"
      unfolding map_map o_def by (rule map_cong [OF refl]) (simp only: un)
    then show ?thesis
      using that by (simp only: handle_expunge_def c1 sum.case prod.case) simp
  qed
  have ms': "imap_messages ?s' = map ?F (enumerate 0 ?L')"
    by (rule expunge_reload [OF spec sel op st dt])
  have ids': "map cm_unique_id (imap_messages ?s') = map unique_id ?L'"
  proof -
    have a: "map cm_unique_id (map ?F (enumerate 0 ?L')) =
             map (unique_id \<circ> snd) (enumerate 0 ?L')"
      by (simp add: case_prod_beta o_def)
    have b: "map (unique_id \<circ> snd) (enumerate 0 ?L') = map unique_id (map snd (enumerate 0 ?L'))"
      by (simp only: map_map)
    show ?thesis by (simp only: ms' a b map_snd_enumerate)
  qed
  have dL: "distinct (map unique_id ?L)"
    using list_messages_ids(1) [of srt "store s" "sel_name sel" d] spec st ok by blast
  have dm: "distinct (map cm_unique_id ?msgs)" using dL by (simp only: al)
  have ll: "length ?L = length ?msgs"
    using arg_cong [OF al, of length] by simp
  have pt: "(unique_id (?L ! i) \<notin> R) = ?keep (?msgs ! i)" if i: "i < length ?L" for i
  proof -
    from i ll have im: "i < length ?msgs" by simp
    have ui: "unique_id (?L ! i) = cm_unique_id (?msgs ! i)"
      using arg_cong [OF al, of "\<lambda>xs. xs ! i"] i im by simp
    show ?thesis
    proof
      assume nr: "unique_id (?L ! i) \<notin> R"
      show "?keep (?msgs ! i)"
      proof
        assume "flag_Deleted \<in> cm_flags (?msgs ! i)"
        with im have "cm_unique_id (?msgs ! i) \<in> R" unfolding R by (intro imageI) simp
        with nr ui show False by simp
      qed
    next
      assume k: "?keep (?msgs ! i)"
      show "unique_id (?L ! i) \<notin> R"
      proof
        assume "unique_id (?L ! i) \<in> R"
        then obtain m where m: "m \<in> set ?msgs" "flag_Deleted \<in> cm_flags m"
          and e: "cm_unique_id m = cm_unique_id (?msgs ! i)"
          unfolding R ui by auto
        from m(1) obtain j where j: "j < length ?msgs" "?msgs ! j = m"
          by (auto simp: in_set_conv_nth)
        with e im have "map cm_unique_id ?msgs ! j = map cm_unique_id ?msgs ! i" by simp
        with dm j(1) im have "j = i" by (simp only: nth_eq_iff_index_eq length_map)
        with j m(2) k show False by simp
      qed
    qed
  qed
  have c6: "map cm_unique_id (imap_messages ?s') = map cm_unique_id (filter ?keep ?msgs)"
    unfolding ids'
    by (rule filter_map_aligned [of unique_id ?L cm_unique_id ?msgs
          "\<lambda>m. unique_id m \<notin> R" ?keep, OF al [symmetric]]) (rule pt)
  have c7: "\<forall>j < length (imap_messages ?s').
        sequence_number (imap_messages ?s' ! j) = of_nat (j + 1) \<and>
        uid (imap_messages ?s' ! j) = next_uid s + of_nat j"
    unfolding ms' by (simp add: nth_enumerate_eq)
  have len': "length (imap_messages ?s') = length (filter ?keep ?msgs)"
    using arg_cong [OF c6, of length] by simp
  have c8: "i - length (filter (\<lambda>j. j < i) to_delete) < length (imap_messages ?s') \<and>
        cm_unique_id (imap_messages ?s' ! (i - length (filter (\<lambda>j. j < i) to_delete))) =
          cm_unique_id (?msgs ! i)"
    if i: "i < length ?msgs" and k: "?keep (?msgs ! i)" for i
  proof -
    let ?c = "length (filter ?keep (take i ?msgs))"
    have "filter (\<lambda>j. j < i) to_delete =
          filter (\<lambda>j. flag_Deleted \<in> cm_flags (?msgs ! j)) (filter (\<lambda>j. j < i) [0..<length ?msgs])"
      unfolding td by (simp add: conj_commute)
    also have "\<dots> = filter (\<lambda>j. flag_Deleted \<in> cm_flags (?msgs ! j)) [0..<i]"
      using i by (simp only: filter_less_upt [OF less_imp_le])
    finally have "length (filter (\<lambda>j. j < i) to_delete) =
          length (filter (\<lambda>j. \<not> ?keep (?msgs ! j)) [0..<i])"
      by simp
    moreover have "?c + length (filter (\<lambda>j. \<not> ?keep (?msgs ! j)) [0..<i]) = i"
      using i by (intro filter_take_count) simp
    ultimately have pos: "i - length (filter (\<lambda>j. j < i) to_delete) = ?c" by simp
    have lt: "?c < length (filter ?keep ?msgs)" and nth: "filter ?keep ?msgs ! ?c = ?msgs ! i"
      using filter_nth_position [of i ?msgs ?keep, OF i k] by blast+
    have "cm_unique_id (imap_messages ?s' ! ?c) = map cm_unique_id (imap_messages ?s') ! ?c"
      using lt len' by simp
    also have "\<dots> = map cm_unique_id (filter ?keep ?msgs) ! ?c" by (simp only: c6)
    also have "\<dots> = cm_unique_id (?msgs ! i)" using lt nth by simp
    finally show ?thesis using lt len' pos by simp
  qed
  from c1 c2 c3 st' c5 c6 c7 c8 show ?thesis by blast
qed

lemma c2_list: "list_messages (sort_key timestamp) c2_fs ''INBOX'' =
   [\<lparr>unique_id = ''m1'', path = (False, ''m1:2,T''), msg_bytes = 5, timestamp = 1,
      flags = {CHR ''T''}, is_new = False, mailbox = ''INBOX''\<rparr>,
    \<lparr>unique_id = ''m2'', path = (False, ''m2:2,S''), msg_bytes = 3, timestamp = 2,
      flags = {CHR ''S''}, is_new = False, mailbox = ''INBOX''\<rparr>,
    \<lparr>unique_id = ''m3'', path = (False, ''m3:2,T''), msg_bytes = 2, timestamp = 3,
      flags = {CHR ''T''}, is_new = False, mailbox = ''INBOX''\<rparr>]"
  by (simp add: list_messages_def get_mailbox_path_def parse_message_file_def
      parse_flags_def str_find_def substr_def c2_fs_def c2_dir_def)

lemma c2_store: "store c2_session = write_uid_file c2_fs ''INBOX'' 7 2"
  by (simp add: c2_session_def select_mailbox_def Let_def get_mailbox_info_def
      get_uid_validity_def allocate_uid_def read_uid_file_def get_mailbox_path_def c4_start_def
      c2_fs_def c2_dir_def write_uid_file_def)

lemma c2_store_dir:
  "store c2_session (get_mailbox_path ''INBOX'') = Some (c2_dir\<lparr>uidvalidity_file := Some [7, 2]\<rparr>)"
  by (simp add: c2_store write_uid_file_def get_mailbox_path_def c2_fs_def)

lemma c2_session_messages:
  "imap_messages c2_session =
     [\<lparr>sequence_number = 1, uid = 1, cm_unique_id = ''m1'', cm_size = 5,
        cm_flags = {flag_Deleted}, internal_date = 1\<rparr>,
      \<lparr>sequence_number = 2, uid = 2, cm_unique_id = ''m2'', cm_size = 3,
        cm_flags = {flag_Seen}, internal_date = 2\<rparr>,
      \<lparr>sequence_number = 3, uid = 3, cm_unique_id = ''m3'', cm_size = 2,
        cm_flags = {flag_Deleted}, internal_date = 3\<rparr>]"
  "maildir_open c2_session"
  "map_option sel_name (selected c2_session) = Some ''INBOX''"
  "next_uid c2_session = 4"
  by (simp_all add: c2_session_def imap_load_defs maildir_eval_defs c4_start_def c2_fs_def
      c2_dir_def)

lemma c2_names_ok: "maildir_names_ok (c2_dir\<lparr>uidvalidity_file := Some [7, 2]\<rparr>)"
  by (simp add: maildir_names_ok_def c2_dir_def file_unique_id_def parse_message_file_def
      str_find_def substr_def starts_with_def)

lemma c2_mtimes:
  "distinct (map mtime (cur_dir (c2_dir\<lparr>uidvalidity_file := Some [7, 2]\<rparr>) @
                       new_dir (c2_dir\<lparr>uidvalidity_file := Some [7, 2]\<rparr>)))"
  by (simp add: c2_dir_def)

lemma c2_flags: "flag_Deleted \<noteq> flag_Seen"
  by (simp add: flag_Deleted_def flag_Seen_def)

lemma c2_hypotheses:
  "\<exists>sel. selected c2_session = Some sel \<and> sel_name sel = ''INBOX''"
  "list_messages (sort_key timestamp) (store c2_session) ''INBOX'' =
     list_messages (sort_key timestamp) c2_fs ''INBOX''"
  "map cm_unique_id (imap_messages c2_session) =
     map unique_id (list_messages (sort_key timestamp) (store c2_session) ''INBOX'')"
  "[0, 2] = filter (\<lambda>i. flag_Deleted \<in> cm_flags (imap_messages c2_session ! i))
              [0..<length (imap_messages c2_session)]"
  "{''m1'', ''m3''} =
     cm_unique_id ` {m \<in> set (imap_messages c2_session). flag_Deleted \<in> cm_flags m}"
proof -
  show "\<exists>sel. selected c2_session = Some sel \<and> sel_name sel = ''INBOX''"
    using c2_session_messages(3) by (cases "selected c2_session") auto
  show l: "list_messages (sort_key timestamp) (store c2_session) ''INBOX'' =
     list_messages (sort_key timestamp) c2_fs ''INBOX''"
    by (simp add: c2_store)
  show "map cm_unique_id (imap_messages c2_session) =
     map unique_id (list_messages (sort_key timestamp) (store c2_session) ''INBOX'')"
    by (simp add: l c2_list c2_session_messages(1))
  show "[0, 2] = filter (\<lambda>i. flag_Deleted \<in> cm_flags (imap_messages c2_session ! i))
              [0..<length (imap_messages c2_session)]"
    by (simp add: c2_session_messages(1) c2_flags)
  show "{''m1'', ''m3''} =
     cm_unique_id ` {m \<in> set (imap_messages c2_session). flag_Deleted \<in> cm_flags m}"
  proof -
    let ?m1 = "\<lparr>sequence_number = 1, uid = 1, cm_unique_id = ''m1'', cm_size = 5,
        cm_flags = {flag_Deleted}, internal_date = 1\<rparr> :: CachedMessage"
    let ?m3 = "\<lparr>sequence_number = 3, uid = 3, cm_unique_id = ''m3'', cm_size = 2,
        cm_flags = {flag_Deleted}, internal_date = 3\<rparr> :: CachedMessage"
    have "{m \<in> set (imap_messages c2_session). flag_Deleted \<in> cm_flags m} = {?m1, ?m3}"
      by (simp only: c2_session_messages(1)) (auto simp: c2_flags)
    then show ?thesis by simp
  qed
qed

lemma load_messages_sort_key:
  assumes "std_sort_spec srt" and "selected s = Some sel"
    and "store s (get_mailbox_path (sel_name sel)) = Some d"
    and "distinct (map mtime (cur_dir d @ new_dir d))"
  shows "load_messages srt s = load_messages (sort_key timestamp) s"
  using assms(2) list_messages_sort_key [of srt "store s" "sel_name sel" d, OF assms(1,3,4)]
  by (simp add: load_messages_def Let_def)

lemma c2_expunge_any_sort:
  assumes spec: "std_sort_spec srt"
  shows "expunge srt c2_session = expunge (sort_key timestamp) c2_session"
proof -
  let ?d = "c2_dir\<lparr>uidvalidity_file := Some [7, 2]\<rparr>"
  let ?R = "{''m1'', ''m3''}"
  from c2_hypotheses(1) obtain sel where sel: "selected c2_session = Some sel"
    and sn: "sel_name sel = ''INBOX''" by blast
  let ?s1 = "c2_session\<lparr>store :=
     (store c2_session)(get_mailbox_path (sel_name sel) \<mapsto> remove_ids ?R ?d)\<rparr>"
  have st: "store c2_session (get_mailbox_path (sel_name sel)) = Some ?d"
    by (simp only: sn c2_store_dir)
  have al: "map cm_unique_id (imap_messages c2_session) =
     map unique_id (list_messages (sort_key timestamp) (store c2_session) (sel_name sel))"
    by (simp only: sn c2_hypotheses(3))
  have al': "map cm_unique_id (imap_messages c2_session) =
     map unique_id (list_messages srt (store c2_session) (sel_name sel))"
    by (simp only: al list_messages_sort_key [of srt "store c2_session" "sel_name sel" ?d,
          OF spec st c2_mtimes])
  have a: "expunge (sort_key timestamp) c2_session =
      Inr (map (\<lambda>i. of_nat (i + 1)) [0, 2], load_messages (sort_key timestamp) ?s1)"
    by (rule expunge_result(2) [OF std_sort_spec_sort_key sel c2_session_messages(2) st
          c2_names_ok al c2_hypotheses(4) c2_hypotheses(5)])
  have b: "expunge srt c2_session =
      Inr (map (\<lambda>i. of_nat (i + 1)) [0, 2], load_messages srt ?s1)"
    by (rule expunge_result(2) [OF spec sel c2_session_messages(2) st
          c2_names_ok al' c2_hypotheses(4) c2_hypotheses(5)])
  have s1: "selected ?s1 = Some sel"
    "store ?s1 (get_mailbox_path (sel_name sel)) = Some (remove_ids ?R ?d)"
    using sel by simp_all
  have "load_messages srt ?s1 = load_messages (sort_key timestamp) ?s1"
    by (rule load_messages_sort_key [OF spec s1 distinct_mtime_remove_ids [OF c2_mtimes]])
  then show ?thesis by (simp only: a b)
qed

text \<open>
  C2 as stated fails in its last part. Of three selected messages with the UIDs 1, 2, 3 the
  first and the third carry \<open>\Deleted\<close>. EXPUNGE returns the sequence numbers 1 and 3, and
  the message that remains, which had the UID 2, has sequence number 1 and the UID 4. The
  three files have the modification times 1, 2 and 3, so every sort that satisfies
  \<open>std_sort_spec\<close> lists them in this order (\<open>c2_expunge_any_sort\<close>).
\<close>

theorem C2_counterexample:
  "map (\<lambda>m. (cm_unique_id m, sequence_number m, uid m)) (imap_messages c2_session) =
     [(''m1'', 1, 1), (''m2'', 2, 2), (''m3'', 3, 3)] \<and>
   (\<exists>s'. expunge (sort_key timestamp) c2_session = Inr ([1, 3], s') \<and>
         map (\<lambda>m. (cm_unique_id m, sequence_number m, uid m)) (imap_messages s') =
           [(''m2'', 1, 4)])"
proof -
  let ?d = "c2_dir\<lparr>uidvalidity_file := Some [7, 2]\<rparr>"
  let ?s' = "load_messages (sort_key timestamp) (c2_session\<lparr>store :=
     (store c2_session)(get_mailbox_path ''INBOX'' \<mapsto> remove_ids {''m1'', ''m3''} ?d)\<rparr>)"
  from c2_hypotheses(1) obtain sel where sel: "selected c2_session = Some sel"
    and sn: "sel_name sel = ''INBOX''" by blast
  have st: "store c2_session (get_mailbox_path (sel_name sel)) = Some ?d"
    by (simp only: sn c2_store_dir)
  have al: "map cm_unique_id (imap_messages c2_session) =
     map unique_id (list_messages (sort_key timestamp) (store c2_session) (sel_name sel))"
    by (simp only: sn c2_hypotheses(3))
  have "expunge (sort_key timestamp) c2_session = Inr (map (\<lambda>i. of_nat (i + 1)) [0, 2], ?s')"
    using expunge_result(2) [OF std_sort_spec_sort_key sel c2_session_messages(2) st
        c2_names_ok al
        c2_hypotheses(4) c2_hypotheses(5)]
    by (simp only: sn)
  then have e: "expunge (sort_key timestamp) c2_session = Inr ([1, 3], ?s')" by simp
  have "imap_messages ?s' =
     map (\<lambda>(j, m). \<lparr>sequence_number = 1 + of_nat j, uid = next_uid c2_session + of_nat j,
                     cm_unique_id = unique_id m, cm_size = msg_bytes m,
                     cm_flags = maildir_to_imap_flags (flags m) \<union>
                                (if is_new m then {flag_Recent} else {}),
                     internal_date = timestamp m\<rparr>)
         (enumerate 0 (filter (\<lambda>m. unique_id m \<notin> {''m1'', ''m3''})
                         (list_messages (sort_key timestamp) (store c2_session) (sel_name sel))))"
    using expunge_reload [OF std_sort_spec_sort_key sel c2_session_messages(2) st c2_mtimes,
        of "{''m1'', ''m3''}"]
    by (simp only: sn)
  then have m: "map (\<lambda>m. (cm_unique_id m, sequence_number m, uid m)) (imap_messages ?s') =
           [(''m2'', 1, 4)]"
    by (simp add: sn c2_hypotheses(2) c2_list c2_session_messages(4))
  have "map (\<lambda>m. (cm_unique_id m, sequence_number m, uid m)) (imap_messages c2_session) =
     [(''m1'', 1, 1), (''m2'', 2, 2), (''m3'', 3, 3)]"
    by (simp add: c2_session_messages(1))
  moreover from e m have "\<exists>s'. expunge (sort_key timestamp) c2_session = Inr ([1, 3], s') \<and>
         map (\<lambda>m. (cm_unique_id m, sequence_number m, uid m)) (imap_messages s') =
           [(''m2'', 1, 4)]"
    by (intro exI [of _ ?s'] conjI)
  ultimately show ?thesis by (rule conjI)
qed

theorem C2_expunge_amended_witness:
  "\<exists>s'. expunge (sort_key timestamp) c2_session = Inr ([1, 3], s') \<and>
        map cm_unique_id (imap_messages s') = [''m2''] \<and>
        sequence_number (imap_messages s' ! 0) = 1 \<and>
        uid (imap_messages s' ! 0) = 4"
proof -
  let ?d = "c2_dir\<lparr>uidvalidity_file := Some [7, 2]\<rparr>"
  from c2_hypotheses(1) obtain sel where sel: "selected c2_session = Some sel"
    and sn: "sel_name sel = ''INBOX''" by blast
  have st: "store c2_session (get_mailbox_path (sel_name sel)) = Some ?d"
    by (simp only: sn c2_store_dir)
  have al: "map cm_unique_id (imap_messages c2_session) =
     map unique_id (list_messages (sort_key timestamp) (store c2_session) (sel_name sel))"
    by (simp only: sn c2_hypotheses(3))
  have len: "length (imap_messages c2_session) < 2 ^ 32"
    by (simp add: c2_session_messages(1))
  from C2_expunge_amended [OF std_sort_spec_sort_key sel c2_session_messages(2) st c2_names_ok
      c2_mtimes al len
      c2_hypotheses(4) c2_hypotheses(5)]
  obtain s' where e: "expunge (sort_key timestamp) c2_session = Inr (map (\<lambda>i. of_nat (i + 1)) [0, 2], s')"
    and ids: "map cm_unique_id (imap_messages s') =
       map cm_unique_id (filter (\<lambda>m. flag_Deleted \<notin> cm_flags m) (imap_messages c2_session))"
    and nu: "\<forall>j < length (imap_messages s').
        sequence_number (imap_messages s' ! j) = of_nat (j + 1) \<and>
        uid (imap_messages s' ! j) = next_uid c2_session + of_nat j"
    by blast
  from ids have i1: "map cm_unique_id (imap_messages s') = [''m2'']"
    by (simp add: c2_session_messages(1) c2_flags)
  from arg_cong [OF i1, of length] have "length (imap_messages s') = 1"
    by simp
  with nu have "sequence_number (imap_messages s' ! 0) = 1 \<and> uid (imap_messages s' ! 0) = 4"
    by (simp add: c2_session_messages(4))
  with e i1 show ?thesis by simp
qed

end
